theory Spec2Isabelle
  imports Complex_Main "HOL-Library.AList" "HOL-Library.Sublist"
begin

section \<open>Retry policy (utilities.ts)\<close>

text \<open>
  \<^verbatim>\<open>Required<RetryOptions>\<close>: the retry policy after the defaults have been merged in.
  The backoff parameters are stored as the numbers the caller wrote; nothing below
  computes with them.
\<close>

record RetryOptions =
  maxRetries :: int
  initialBackoff :: real
  maxBackoff :: real
  jitter :: real
  retryableStatusCodes :: "int list"
  retryNetworkErrors :: bool
  backoffFactor :: real

definition DEFAULT_RETRY_OPTIONS :: RetryOptions where
  "DEFAULT_RETRY_OPTIONS =
     \<lparr>maxRetries = 3, initialBackoff = 300, maxBackoff = 10000, jitter = 0.2,
      retryableStatusCodes = [429, 500, 502, 503, 504], retryNetworkErrors = True,
      backoffFactor = 2\<rparr>"

section \<open>Responses, thrown values and the transport (utilities.ts, errors.ts)\<close>

text \<open>
  What the retry code reads of a \<^verbatim>\<open>Response\<close>: the status, the status text and the
  headers, a list of names and values; \<^verbatim>\<open>headers.get(name)\<close> is the lookup \<open>headersGet\<close>
  (\<open>None\<close> is JavaScript's \<^verbatim>\<open>null\<close>), with the name written as the list has it.
\<close>

record Response =
  status :: int
  statusText :: string
  headers :: "(string \<times> string) list"

definition headersGet :: "Response \<Rightarrow> string \<Rightarrow> string option" where
  "headersGet r name = map_of (headers r) name"

text \<open>The \<^verbatim>\<open>ok\<close> getter of a \<^verbatim>\<open>Response\<close>: the Fetch standard defines it as a status in 200..299.\<close>

definition ok :: "Response \<Rightarrow> bool" where
  "ok r \<longleftrightarrow> 200 \<le> status r \<and> status r \<le> 299"

text \<open>
  \<^verbatim>\<open>parseInt(s, 10)\<close>: leading white space is skipped, one sign is read, then the longest
  run of decimal digits; \<open>None\<close> is \<^verbatim>\<open>NaN\<close> (no digit). White space is the ASCII part of
  the standard's list.
\<close>

definition isWhiteSpace :: "char \<Rightarrow> bool" where
  "isWhiteSpace c \<longleftrightarrow> (of_char c :: nat) \<in> {9, 10, 11, 12, 13, 32}"

definition isDigit :: "char \<Rightarrow> bool" where
  "isDigit c \<longleftrightarrow> 48 \<le> (of_char c :: nat) \<and> (of_char c :: nat) \<le> 57"

definition digitsValue :: "string \<Rightarrow> nat" where
  "digitsValue ds = foldl (\<lambda>acc c. 10 * acc + (of_char c - 48)) 0 ds"

definition parseInt :: "string \<Rightarrow> int option" where
  "parseInt inputString =
     (let s = dropWhile isWhiteSpace inputString;
          negative = (s \<noteq> [] \<and> hd s = CHR ''-'');
          s' = (if s \<noteq> [] \<and> (hd s = CHR ''-'' \<or> hd s = CHR ''+'') then tl s else s);
          ds = takeWhile isDigit s'
      in if ds = [] then None
         else Some (if negative then - int (digitsValue ds) else int (digitsValue ds)))"

text \<open>
  The values the code throws or receives from the transport. The plain \<^verbatim>\<open>Error\<close>s that
  \<^verbatim>\<open>fetchWithRetry\<close> builds carry here the numbers their message is formatted from:
  \<^item> \<open>StatusError status statusText\<close>: \<^verbatim>\<open>Request failed with status ${status}: ${statusText}\<close>;
  \<^item> \<open>RetryingError status n maxRetries\<close>: \<^verbatim>\<open>Received status code ${status}, retrying (${n}/${maxRetries})\<close>;
  \<^item> \<open>ExhaustedError status maxRetries\<close>: \<^verbatim>\<open>Request failed with status ${status} after ${maxRetries} retries\<close>;
  \<^item> \<open>RateLimitError status response retryAfterSeconds\<close>: the class of errors.ts, with the
    message \<^verbatim>\<open>Rate limit exceeded with status code ${status}. Check retryAfterSeconds for wait time.\<close>;
    the field \<^verbatim>\<open>retryAfterSeconds\<close> is \<open>None\<close> when it was never assigned, \<open>Some None\<close> when it
    is \<^verbatim>\<open>NaN\<close>, \<open>Some (Some n)\<close> otherwise;
  \<^item> \<open>UndefinedThrown\<close>: the value \<^verbatim>\<open>undefined\<close>, which \<^verbatim>\<open>throw lastError\<close> throws when no
    error was recorded.
\<close>

datatype exn =
    DOMException string string
  | TypeError string
  | Error string
  | StatusError int string
  | RetryingError int int int
  | ExhaustedError int int
  | RateLimitError int Response "int option option"
  | UndefinedThrown

text \<open>The constructor of \<^verbatim>\<open>RateLimitError\<close> (errors.ts); an empty header value is falsy.\<close>

definition new_RateLimitError :: "Response \<Rightarrow> exn" where
  "new_RateLimitError response =
     RateLimitError (status response) response
       (case headersGet response ''Retry-After'' of
          None \<Rightarrow> None
        | Some retryAfter \<Rightarrow> if retryAfter = [] then None else Some (parseInt retryAfter))"

text \<open>\<^verbatim>\<open>new DOMException('The operation was aborted.', 'AbortError')\<close>\<close>

definition operationAborted :: exn where
  "operationAborted = DOMException ''The operation was aborted.'' ''AbortError''"

text \<open>\<^verbatim>\<open>error instanceof DOMException && error.name === 'AbortError'\<close>\<close>

fun isAbortError :: "exn \<Rightarrow> bool" where
  "isAbortError (DOMException message name) = (name = ''AbortError'')"
| "isAbortError _ = False"

text \<open>\<^verbatim>\<open>isNetworkError\<close>: a \<^verbatim>\<open>TypeError\<close> whose message includes one of two texts.\<close>

fun isNetworkError :: "exn \<Rightarrow> bool" where
  "isNetworkError (TypeError message) =
     (sublist ''Failed to fetch'' message \<or> sublist ''Network request failed'' message)"
| "isNetworkError _ = False"

text \<open>
  One run of \<^verbatim>\<open>fetchWithRetry\<close> suspends only at \<^verbatim>\<open>await fetch(...)\<close> and \<^verbatim>\<open>await sleep(...)\<close>.
  The run's trace lists these awaits in order. Its environment gives
  \<^item> the transport: the outcome of the \<open>n\<close>-th call of \<^verbatim>\<open>fetch(input, init)\<close> (0-based), which
    may depend on whether cancellation is requested while that call is in flight (the
    signal is passed to the transport within \<^verbatim>\<open>init\<close>);
  \<^item> the cancellation: \<open>abortAt = None\<close> when there is no signal or it is never aborted,
    \<open>Some 0\<close> when the signal is aborted before the call of \<^verbatim>\<open>fetchWithRetry\<close>, and
    \<open>Some (Suc k)\<close> when it is aborted while the await number \<open>k\<close> (0-based) is pending.
    JavaScript being single-threaded, a signal cannot change between two awaits.
  The time a sleep lasts has no influence on the run. The trace names it: \<open>BackoffTime i\<close>
  is the number \<^verbatim>\<open>calculateBackoff(i, retryOptions)\<close> returns, a floating-point computation
  with \<^verbatim>\<open>Math.pow\<close> and \<^verbatim>\<open>Math.random\<close> that is not evaluated here; \<open>WaitTime ms\<close> is the
  \<^verbatim>\<open>Retry-After\<close> wait in milliseconds.
\<close>

datatype fetch_outcome = Resolves Response | Rejects exn

record env =
  transport :: "nat \<Rightarrow> bool \<Rightarrow> fetch_outcome"
  abortAt :: "nat option"

datatype duration = BackoffTime nat | WaitTime int

datatype await = Slept duration | Fetched

record run =
  trace :: "await list"
  lastError :: "exn option"

definition initialRun :: run where
  "initialRun = \<lparr>trace = [], lastError = None\<rparr>"

definition isFetched :: "await \<Rightarrow> bool" where
  "isFetched a \<longleftrightarrow> a = Fetched"

text \<open>The number of transport calls a trace holds.\<close>

definition transportCalls :: "await list \<Rightarrow> nat" where
  "transportCalls tr = length (filter isFetched tr)"

text \<open>
  \<^verbatim>\<open>aborted || init?.signal?.aborted\<close>. The flag \<^verbatim>\<open>aborted\<close> is set by the listener on the
  same signal, so the disjunction is the signal's state: aborted once the request lies
  within the awaits that have completed.
\<close>

definition signalAborted :: "env \<Rightarrow> run \<Rightarrow> bool" where
  "signalAborted e st = (case abortAt e of None \<Rightarrow> False | Some k \<Rightarrow> k \<le> length (trace st))"

text \<open>\<^verbatim>\<open>await sleep(ms)\<close>\<close>

definition sleep :: "duration \<Rightarrow> run \<Rightarrow> run" where
  "sleep ms st = st\<lparr>trace := trace st @ [Slept ms]\<rparr>"

text \<open>\<^verbatim>\<open>await fetch(input, init)\<close>\<close>

definition doFetch :: "env \<Rightarrow> run \<Rightarrow> fetch_outcome \<times> run" where
  "doFetch e st =
     (transport e (transportCalls (trace st)) (abortAt e = Some (Suc (length (trace st)))),
      st\<lparr>trace := trace st @ [Fetched]\<rparr>)"

text \<open>
  The result of one iteration of the retry loop: the function returns, throws, or the
  loop goes on with the next attempt.
\<close>

datatype step = Returned Response | Thrown exn | NextAttempt

text \<open>The \<^verbatim>\<open>catch (error)\<close> block of the loop body.\<close>

definition catchBlock :: "RetryOptions \<Rightarrow> nat \<Rightarrow> exn \<Rightarrow> run \<Rightarrow> step \<times> run" where
  "catchBlock opts attempt error st =
     (let st' = st\<lparr>lastError := Some error\<rparr>
      in if isAbortError error then (Thrown error, st')
         else if \<not> retryNetworkErrors opts \<or> \<not> isNetworkError error then (Thrown error, st')
         else if int attempt < maxRetries opts then (NextAttempt, st')
         else (Thrown error, st'))"

text \<open>
  The part of the \<^verbatim>\<open>try\<close> block after a non-ok response with a retryable status, when
  retries remain: the \<^verbatim>\<open>Retry-After\<close> wait.
\<close>

definition retryAfterWait :: "env \<Rightarrow> RetryOptions \<Rightarrow> nat \<Rightarrow> Response \<Rightarrow> run \<Rightarrow> step \<times> run" where
  "retryAfterWait e opts attempt response st =
     (case headersGet response ''Retry-After'' of
        None \<Rightarrow> (NextAttempt, st)
      | Some retryAfter \<Rightarrow>
          if retryAfter = [] then (NextAttempt, st)
          else (case parseInt retryAfter of
                  None \<Rightarrow> (NextAttempt, st)
                | Some seconds \<Rightarrow>
                    let waitTime = seconds * 1000
                    in if waitTime > 0 then
                         if signalAborted e st then catchBlock opts attempt operationAborted st
                         else let st' = sleep (WaitTime waitTime) st
                              in if signalAborted e st'
                                 then catchBlock opts attempt operationAborted st'
                                 else (NextAttempt, st')
                       else (NextAttempt, st)))"

text \<open>The handling of a response inside the \<^verbatim>\<open>try\<close> block.\<close>

definition handleResponse :: "env \<Rightarrow> RetryOptions \<Rightarrow> nat \<Rightarrow> Response \<Rightarrow> run \<Rightarrow> step \<times> run" where
  "handleResponse e opts attempt response st =
     (if ok response then (Returned response, st)
      else if status response \<notin> set (retryableStatusCodes opts)
      then catchBlock opts attempt (StatusError (status response) (statusText response)) st
      else if int attempt \<ge> maxRetries opts \<and> status response = 429
      then catchBlock opts attempt (new_RateLimitError response) st
      else if int attempt < maxRetries opts
      then retryAfterWait e opts attempt response
             (st\<lparr>lastError :=
                  Some (RetryingError (status response) (int attempt + 1) (maxRetries opts))\<rparr>)
      else catchBlock opts attempt (ExhaustedError (status response) (maxRetries opts)) st)"

text \<open>The body of the \<^verbatim>\<open>for\<close> loop: the \<^verbatim>\<open>try\<close> block with its \<^verbatim>\<open>catch\<close>.\<close>

definition attemptBody :: "env \<Rightarrow> RetryOptions \<Rightarrow> nat \<Rightarrow> run \<Rightarrow> step \<times> run" where
  "attemptBody e opts attempt st =
     (if signalAborted e st then catchBlock opts attempt operationAborted st
      else
        let st1 = (if attempt > 0
                   then sleep (BackoffTime (attempt - 1)) st
                   else st)
        in if attempt > 0 \<and> signalAborted e st1
           then catchBlock opts attempt operationAborted st1
           else (case doFetch e st1 of
                   (Rejects error, st2) \<Rightarrow> catchBlock opts attempt error st2
                 | (Resolves response, st2) \<Rightarrow> handleResponse e opts attempt response st2))"

text \<open>
  \<^verbatim>\<open>for (let attempt = 0; attempt <= maxRetries; attempt++)\<close>, entered at \<open>attempt\<close>, and the
  \<^verbatim>\<open>throw lastError\<close> that follows the loop.
\<close>

function retryLoop :: "env \<Rightarrow> RetryOptions \<Rightarrow> nat \<Rightarrow> run \<Rightarrow> (exn + Response) \<times> run" where
  "retryLoop e opts attempt st =
     (if int attempt \<le> maxRetries opts
      then (case attemptBody e opts attempt st of
              (Returned response, st') \<Rightarrow> (Inr response, st')
            | (Thrown error, st') \<Rightarrow> (Inl error, st')
            | (NextAttempt, st') \<Rightarrow> retryLoop e opts (Suc attempt) st')
      else (Inl (case lastError st of None \<Rightarrow> UndefinedThrown | Some error \<Rightarrow> error), st))"
  by pat_completeness auto
termination
  by (relation "measure (\<lambda>(e, opts, attempt, st). nat (maxRetries opts + 1 - int attempt))") auto

declare retryLoop.simps [simp del]

text \<open>
  The optional third argument of \<^verbatim>\<open>fetchWithRetry\<close>: \<^verbatim>\<open>false\<close>, absent, or an object in which
  each property may be absent (\<open>None\<close>).
\<close>

record PartialRetryOptions =
  opt_maxRetries :: "int option"
  opt_initialBackoff :: "real option"
  opt_maxBackoff :: "real option"
  opt_jitter :: "real option"
  opt_retryableStatusCodes :: "int list option"
  opt_retryNetworkErrors :: "bool option"
  opt_backoffFactor :: "real option"

datatype retry_arg = RetryFalse | RetryAbsent | RetryWith PartialRetryOptions

text \<open>\<^verbatim>\<open>{ ...DEFAULT_RETRY_OPTIONS, ...options }\<close>\<close>

definition mergeOptions :: "PartialRetryOptions \<Rightarrow> RetryOptions" where
  "mergeOptions p =
     \<lparr>maxRetries = (case opt_maxRetries p of None \<Rightarrow> maxRetries DEFAULT_RETRY_OPTIONS | Some v \<Rightarrow> v),
      initialBackoff =
        (case opt_initialBackoff p of None \<Rightarrow> initialBackoff DEFAULT_RETRY_OPTIONS | Some v \<Rightarrow> v),
      maxBackoff = (case opt_maxBackoff p of None \<Rightarrow> maxBackoff DEFAULT_RETRY_OPTIONS | Some v \<Rightarrow> v),
      jitter = (case opt_jitter p of None \<Rightarrow> jitter DEFAULT_RETRY_OPTIONS | Some v \<Rightarrow> v),
      retryableStatusCodes =
        (case opt_retryableStatusCodes p of
           None \<Rightarrow> retryableStatusCodes DEFAULT_RETRY_OPTIONS | Some v \<Rightarrow> v),
      retryNetworkErrors =
        (case opt_retryNetworkErrors p of
           None \<Rightarrow> retryNetworkErrors DEFAULT_RETRY_OPTIONS | Some v \<Rightarrow> v),
      backoffFactor =
        (case opt_backoffFactor p of None \<Rightarrow> backoffFactor DEFAULT_RETRY_OPTIONS | Some v \<Rightarrow> v)\<rparr>"

text \<open>
  \<^verbatim>\<open>fetchWithRetry(input, init, options)\<close>. The request \<^verbatim>\<open>input\<close> and \<^verbatim>\<open>init\<close> are handed to
  the transport unchanged; the environment stands for the transport's answers and for
  the signal of \<^verbatim>\<open>init\<close>. The result is the thrown value (\<open>Inl\<close>) or the response (\<open>Inr\<close>),
  with the run's trace.
\<close>

definition fetchWithRetry :: "env \<Rightarrow> retry_arg \<Rightarrow> (exn + Response) \<times> run" where
  "fetchWithRetry e options =
     (if signalAborted e initialRun then (Inl operationAborted, initialRun)
      else (case options of
              RetryFalse \<Rightarrow>
                (case doFetch e initialRun of
                   (Resolves response, st) \<Rightarrow> (Inr response, st)
                 | (Rejects error, st) \<Rightarrow> (Inl error, st))
            | RetryAbsent \<Rightarrow> retryLoop e DEFAULT_RETRY_OPTIONS 0 initialRun
            | RetryWith p \<Rightarrow> retryLoop e (mergeOptions p) 0 initialRun))"

section \<open>The stale-while-revalidate cache (cache.ts)\<close>

text \<open>Times are the integers that \<^verbatim>\<open>Date.now()\<close> returns (milliseconds).\<close>

record 'v CacheEntry =
  data :: 'v
  timestamp :: int
  lastAccessed :: int

record CacheOptions =
  maxAge :: int
  staleWhileRevalidate :: int
  maxEntries :: "int option"

text \<open>
  The argument of the constructor, \<^verbatim>\<open>Partial<CacheOptions>\<close>: \<open>None\<close> is an absent property.
  For \<^verbatim>\<open>maxEntries\<close>, \<open>Some None\<close> is the property given as \<^verbatim>\<open>undefined\<close>, which the spread
  copies over the default.
\<close>

record PartialCacheOptions =
  opt_maxAge :: "int option"
  opt_staleWhileRevalidate :: "int option"
  opt_maxEntries :: "int option option"

text \<open>
  Every call of \<^verbatim>\<open>fetchAndCache\<close> creates one promise (\<^verbatim>\<open>fetchPromise\<close>); a promise is named
  by its creation index. It remembers the key it was created for and whether it has
  settled.
\<close>

datatype 'v settled = Pending | Fulfilled 'v | Rejected exn

fun isPending :: "'v settled \<Rightarrow> bool" where
  "isPending Pending = True"
| "isPending _ = False"

record 'v FetchPromise =
  promiseKey :: string
  settled :: "'v settled"

text \<open>
  The state of a \<^verbatim>\<open>Cache<T>\<close> object. The two JavaScript \<^verbatim>\<open>Map\<close>s are association lists in
  insertion order: \<^verbatim>\<open>set\<close> on a present key keeps its position, on a new key appends
  (\<open>AList.update\<close>), \<^verbatim>\<open>delete\<close> removes the key (\<open>AList.delete\<close>). Beside the fields of the
  class the state holds the promises created so far, the promises that
  \<^verbatim>\<open>refreshInBackground\<close> gave a \<^verbatim>\<open>catch\<close> handler, and the log of the loader invocations
  (key and loader), the loader \<^verbatim>\<open>fetchFn\<close> being named by a value of type \<open>'l\<close>.
\<close>

record ('v, 'l) Cache =
  cache :: "(string \<times> 'v CacheEntry) list"
  options :: CacheOptions
  fetchPromises :: "(string \<times> nat) list"
  promises :: "'v FetchPromise list"
  catchAttached :: "nat list"
  loaderCalls :: "(string \<times> 'l) list"

definition newCache :: "PartialCacheOptions \<Rightarrow> ('v, 'l) Cache" where
  "newCache p =
     \<lparr>cache = [],
      options =
        \<lparr>maxAge = (case opt_maxAge p of None \<Rightarrow> 60 * 1000 | Some v \<Rightarrow> v),
         staleWhileRevalidate =
           (case opt_staleWhileRevalidate p of None \<Rightarrow> 5 * 60 * 1000 | Some v \<Rightarrow> v),
         maxEntries = (case opt_maxEntries p of None \<Rightarrow> Some 1000 | Some v \<Rightarrow> v)\<rparr>,
      fetchPromises = [], promises = [], catchAttached = [], loaderCalls = []\<rparr>"

text \<open>
  \<^verbatim>\<open>evictLRUIfNeeded\<close>. \<^verbatim>\<open>!maxEntries\<close> holds for an unset and for a zero \<^verbatim>\<open>maxEntries\<close>.
  \<open>accessTimes\<close> is the \<^verbatim>\<open>map\<close> to the keys with their \<^verbatim>\<open>lastAccessed\<close>: every entry is written
  with its \<^verbatim>\<open>lastAccessed\<close>, so the fallback to \<^verbatim>\<open>timestamp\<close> is never taken.
  \<^verbatim>\<open>Array.prototype.sort\<close> is stable, as \<open>sort_key\<close> is; \<^verbatim>\<open>slice(0, n)\<close> is \<open>take\<close>; \<open>deleteEntries\<close>
  is the \<^verbatim>\<open>forEach\<close> that deletes the key of each selected entry.
\<close>

definition accessTimes :: "(string \<times> 'v CacheEntry) list \<Rightarrow> (string \<times> int) list" where
  "accessTimes al = map (\<lambda>(key, value). (key, lastAccessed value)) al"

definition deleteEntries :: "(string \<times> int) list \<Rightarrow> (string \<times> 'a) list \<Rightarrow> (string \<times> 'a) list" where
  "deleteEntries entries al = fold (\<lambda>entry m. AList.delete (fst entry) m) entries al"

definition evictLRUIfNeeded :: "('v, 'l) Cache \<Rightarrow> ('v, 'l) Cache" where
  "evictLRUIfNeeded c =
     (case maxEntries (options c) of
        None \<Rightarrow> c
      | Some m \<Rightarrow>
          if m = 0 \<or> int (length (cache c)) \<le> m then c
          else
            let entriesToRemove = int (length (cache c)) - m;
                entries = sort_key snd (accessTimes (cache c))
            in c\<lparr>cache := deleteEntries (take (nat entriesToRemove) entries) (cache c)\<rparr>)"

text \<open>
  \<^verbatim>\<open>fetchAndCache\<close>, the part that runs at the call: the promise is created, the loader is
  invoked (the body of the inner \<^verbatim>\<open>async\<close> function runs up to \<^verbatim>\<open>await fetchFn()\<close>), and the
  promise is stored under the key. The result is the promise.
\<close>

definition fetchAndCache :: "string \<Rightarrow> 'l \<Rightarrow> ('v, 'l) Cache \<Rightarrow> nat \<times> ('v, 'l) Cache" where
  "fetchAndCache key fetchFn c =
     (let fetchPromise = length (promises c)
      in (fetchPromise,
          c\<lparr>promises := promises c @ [\<lparr>promiseKey = key, settled = Pending\<rparr>],
            loaderCalls := loaderCalls c @ [(key, fetchFn)],
            fetchPromises := AList.update key fetchPromise (fetchPromises c)\<rparr>))"

text \<open>
  The rest of \<^verbatim>\<open>fetchAndCache\<close>, which runs when the loader's promise settles, at time \<open>now\<close>,
  with a value (\<open>Inr\<close>) or an error (\<open>Inl\<close>): the \<^verbatim>\<open>try\<close> block after the \<^verbatim>\<open>await\<close>, the
  \<^verbatim>\<open>finally\<close> block, and for a promise of \<^verbatim>\<open>refreshInBackground\<close> the \<^verbatim>\<open>catch\<close> handler, which
  follows a rejection directly.
\<close>

definition settle :: "nat \<Rightarrow> exn + 'v \<Rightarrow> int \<Rightarrow> ('v, 'l) Cache \<Rightarrow> ('v, 'l) Cache" where
  "settle fetchPromise outcome now c =
     (if fetchPromise < length (promises c) \<and> isPending (settled (promises c ! fetchPromise))
      then
        let key = promiseKey (promises c ! fetchPromise)
        in (case outcome of
              Inr loaded \<Rightarrow>
                let c1 = c\<lparr>cache := AList.update key
                               \<lparr>data = loaded, timestamp = now, lastAccessed = now\<rparr> (cache c)\<rparr>;
                    c2 = evictLRUIfNeeded c1;
                    c3 = c2\<lparr>fetchPromises := AList.delete key (fetchPromises c2)\<rparr>
                in c3\<lparr>promises := (promises c3)
                        [fetchPromise := \<lparr>promiseKey = key, settled = Fulfilled loaded\<rparr>]\<rparr>
            | Inl error \<Rightarrow>
                let c1 = c\<lparr>fetchPromises := AList.delete key (fetchPromises c)\<rparr>;
                    c2 = (if fetchPromise \<in> set (catchAttached c1)
                          then c1\<lparr>fetchPromises := AList.delete key (fetchPromises c1)\<rparr>
                          else c1)
                in c2\<lparr>promises := (promises c2)
                        [fetchPromise := \<lparr>promiseKey = key, settled = Rejected error\<rparr>]\<rparr>)
      else c)"

text \<open>\<^verbatim>\<open>refreshInBackground\<close>: the promise of \<^verbatim>\<open>fetchAndCache\<close> gets the \<^verbatim>\<open>catch\<close> handler.\<close>

definition refreshInBackground :: "string \<Rightarrow> 'l \<Rightarrow> ('v, 'l) Cache \<Rightarrow> ('v, 'l) Cache" where
  "refreshInBackground key fetchFn c =
     (case fetchAndCache key fetchFn c of
        (fetchPromise, c') \<Rightarrow> c'\<lparr>catchAttached := fetchPromise # catchAttached c'\<rparr>)"

text \<open>
  The promise that \<^verbatim>\<open>get\<close> returns is resolved at once with a value, or it follows a
  promise of \<^verbatim>\<open>fetchAndCache\<close>.
\<close>

datatype 'v get_result = Value 'v | Awaits nat

text \<open>\<^verbatim>\<open>get(key, fetchFn)\<close>, called at time \<open>now\<close>. The function has no \<^verbatim>\<open>await\<close>: it runs at the call.\<close>

definition get :: "string \<Rightarrow> 'l \<Rightarrow> int \<Rightarrow> ('v, 'l) Cache \<Rightarrow> 'v get_result \<times> ('v, 'l) Cache" where
  "get key fetchFn now c =
     (let blocking =
            (case map_of (fetchPromises c) key of
               Some promise \<Rightarrow> (Awaits promise, c)
             | None \<Rightarrow> (case fetchAndCache key fetchFn c of
                          (fetchPromise, c') \<Rightarrow> (Awaits fetchPromise, c')))
      in case map_of (cache c) key of
           None \<Rightarrow> blocking
         | Some cachedEntry \<Rightarrow>
             if now - timestamp cachedEntry < maxAge (options c)
             then (Value (data cachedEntry),
                   c\<lparr>cache := AList.update key (cachedEntry\<lparr>lastAccessed := now\<rparr>) (cache c)\<rparr>)
             else if now - timestamp cachedEntry < staleWhileRevalidate (options c)
             then (let c1 = refreshInBackground key fetchFn c
                   in (Value (data cachedEntry),
                       c1\<lparr>cache := AList.update key (cachedEntry\<lparr>lastAccessed := now\<rparr>)
                                      (cache c1)\<rparr>))
             else blocking)"

text \<open>\<^verbatim>\<open>refresh\<close>, \<^verbatim>\<open>invalidate\<close>, \<^verbatim>\<open>clear\<close> and \<^verbatim>\<open>has\<close>.\<close>

definition refresh :: "string \<Rightarrow> 'l \<Rightarrow> ('v, 'l) Cache \<Rightarrow> 'v get_result \<times> ('v, 'l) Cache" where
  "refresh key fetchFn c =
     (case fetchAndCache key fetchFn c of (fetchPromise, c') \<Rightarrow> (Awaits fetchPromise, c'))"

definition invalidate :: "string \<Rightarrow> ('v, 'l) Cache \<Rightarrow> ('v, 'l) Cache" where
  "invalidate key c =
     c\<lparr>cache := AList.delete key (cache c),
       fetchPromises := AList.delete key (fetchPromises c)\<rparr>"

definition clear :: "('v, 'l) Cache \<Rightarrow> ('v, 'l) Cache" where
  "clear c = c\<lparr>cache := [], fetchPromises := []\<rparr>"

definition has :: "string \<Rightarrow> ('v, 'l) Cache \<Rightarrow> bool" where
  "has key c \<longleftrightarrow> map_of (cache c) key \<noteq> None"

text \<open>
  Calls of \<^verbatim>\<open>get\<close> for one key made one after the other with no settlement in between
  (concurrent callers on the single thread): each call has its loader and its time.
\<close>

fun getAll :: "string \<Rightarrow> ('l \<times> int) list \<Rightarrow> ('v, 'l) Cache
    \<Rightarrow> 'v get_result list \<times> ('v, 'l) Cache" where
  "getAll key [] c = ([], c)"
| "getAll key ((fetchFn, now) # calls) c =
     (case get key fetchFn now c of
        (r, c1) \<Rightarrow> (case getAll key calls c1 of (rs, c2) \<Rightarrow> (r # rs, c2)))"

text \<open>
  A transport honours the signal when every call that is in flight at the moment
  cancellation is requested rejects with an abort error, as the platform's \<^verbatim>\<open>fetch\<close> does.
\<close>

definition honoursSignal :: "env \<Rightarrow> bool" where
  "honoursSignal e \<longleftrightarrow> (\<forall>n. \<exists>x. transport e n True = Rejects x \<and> isAbortError x)"

text \<open>
  What holds of a run when cancellation is requested at \<open>k\<close>: no await beyond the one
  pending at the request; and if the run reaches the request, it is aborted (\<open>ab\<close>)
  unless its last await was a transport call, which a transport that honours the signal
  excludes.
\<close>

definition cancelPost :: "env \<Rightarrow> nat \<Rightarrow> bool \<Rightarrow> run \<Rightarrow> bool" where
  "cancelPost e k ab st \<longleftrightarrow>
     length (trace st) \<le> k
     \<and> (length (trace st) = k \<longrightarrow> ab \<or> (trace st \<noteq> [] \<and> last (trace st) = Fetched))
     \<and> (honoursSignal e \<longrightarrow> length (trace st) = k \<longrightarrow> ab)"

fun stepAborts :: "step \<Rightarrow> bool" where
  "stepAborts (Thrown x) = isAbortError x"
| "stepAborts _ = False"

text \<open>Concrete environments and arguments, for the examples.\<close>

definition mkResponse :: "int \<Rightarrow> (string \<times> string) list \<Rightarrow> Response" where
  "mkResponse s hs = \<lparr>status = s, statusText = [], headers = hs\<rparr>"

text \<open>A transport that answers every call alike, whatever the signal does.\<close>

definition constantTransport :: "fetch_outcome \<Rightarrow> nat option \<Rightarrow> env" where
  "constantTransport outcome a =
     \<lparr>transport = (\<lambda>n during. outcome), abortAt = a\<rparr>"

text \<open>The same, but a call in flight when cancellation is requested rejects with an abort error.\<close>

definition abortableTransport :: "fetch_outcome \<Rightarrow> nat option \<Rightarrow> env" where
  "abortableTransport outcome a =
     \<lparr>transport = (\<lambda>n during. if during then Rejects operationAborted else outcome),
      abortAt = a\<rparr>"

definition retryOptions :: "int \<Rightarrow> int list option \<Rightarrow> PartialRetryOptions" where
  "retryOptions m codes =
     \<lparr>opt_maxRetries = Some m, opt_initialBackoff = Some 1, opt_maxBackoff = Some 10,
      opt_jitter = Some 0, opt_retryableStatusCodes = codes, opt_retryNetworkErrors = None,
      opt_backoffFactor = None\<rparr>"

text \<open>
  A \<^verbatim>\<open>get\<close> whose load, when one starts, settles with the value \<open>v\<close> at the time of the call
  (\<^verbatim>\<open>await cache.get(key, async () => v)\<close> with the clock at \<open>now\<close>).
\<close>

definition load :: "string \<Rightarrow> 'l \<Rightarrow> 'v \<Rightarrow> int \<Rightarrow> ('v, 'l) Cache \<Rightarrow> ('v, 'l) Cache" where
  "load key fetchFn v now c =
     (case get key fetchFn now c of
        (Awaits fetchPromise, c') \<Rightarrow> settle fetchPromise (Inr v) now c'
      | (Value _, c') \<Rightarrow> c')"

text \<open>Concrete caches, for the examples: strings as values, loaders named by numbers.\<close>

definition cacheWith :: "int \<Rightarrow> int \<Rightarrow> int option \<Rightarrow> ('v, 'l) Cache" where
  "cacheWith ma swr cap =
     newCache \<lparr>opt_maxAge = Some ma, opt_staleWhileRevalidate = Some swr,
               opt_maxEntries = Some cap\<rparr>"

text \<open>
  The cache of the repository's eviction test before the load of the fourth key settles:
  three keys loaded at 100, 200 and 300, the first read again at 400, the fourth
  requested at 500.
\<close>

definition lruBeforeFourth :: "(string, nat) Cache" where
  "lruBeforeFourth =
     snd (get ''key4'' 3 500
       (snd (get ''key1'' 9 400
         (load ''key3'' 2 ''value3'' 300
           (load ''key2'' 1 ''value2'' 200
             (load ''key1'' 0 ''value1'' 100 (cacheWith 1000 2000 (Some 3))))))))"

text \<open>A cache with \<^verbatim>\<open>maxAge = 100\<close> and \<^verbatim>\<open>staleWhileRevalidate = 200\<close> holding one key written at 0.\<close>

definition staleExample :: "(string, nat) Cache" where
  "staleExample = load ''k'' 0 ''old'' 0 (cacheWith 100 200 None)"

text \<open>The cache \<^verbatim>\<open>new Cache()\<close> with the default options.\<close>

definition emptyCache :: "('v, 'l) Cache" where
  "emptyCache =
     newCache \<lparr>opt_maxAge = None, opt_staleWhileRevalidate = None, opt_maxEntries = None\<rparr>"

text \<open>That cache with the first \<^verbatim>\<open>get\<close> of a key in flight.\<close>

definition inFlightExample :: "(string, nat) Cache" where
  "inFlightExample = snd (get ''k'' 0 0 emptyCache)"

section \<open>The comment tree (api.ts)\<close>

text \<open>
  \<^verbatim>\<open>HackerNewsItem\<close> (types.ts): every property but \<^verbatim>\<open>id\<close> is optional, \<open>None\<close> being an absent
  property. The properties \<^verbatim>\<open>id\<close>, \<^verbatim>\<open>type\<close>, \<^verbatim>\<open>by\<close>, \<^verbatim>\<open>time\<close>, \<^verbatim>\<open>text\<close> and \<^verbatim>\<open>url\<close> carry the prefix
  \<open>item_\<close> here.
\<close>

record HackerNewsItem =
  item_id :: int
  deleted :: "bool option"
  item_type :: "string option"
  item_by :: "string option"
  item_time :: "int option"
  item_text :: "string option"
  dead :: "bool option"
  parent :: "int option"
  poll :: "int option"
  kids :: "int list option"
  item_url :: "string option"
  score :: "int option"
  title :: "string option"
  parts :: "int list option"
  descendants :: "int option"

text \<open>\<^verbatim>\<open>HackerNewsCommentTree\<close>: an item with its \<^verbatim>\<open>replies\<close>.\<close>

datatype HackerNewsCommentTree =
  CommentTree (item: HackerNewsItem) (replies: "HackerNewsCommentTree list")

text \<open>The truth value JavaScript gives an optional boolean: \<^verbatim>\<open>undefined\<close> and \<^verbatim>\<open>false\<close> are falsy.\<close>

definition truthy :: "bool option \<Rightarrow> bool" where
  "truthy b \<longleftrightarrow> b = Some True"

text \<open>The options of \<^verbatim>\<open>getItemWithComments\<close>, each property optional, and their defaults.\<close>

record CommentOptions =
  opt_maxDepth :: "int option"
  opt_currentDepth :: "int option"
  opt_concurrency :: "int option"

definition DEFAULT_MAX_COMMENT_DEPTH :: int where
  "DEFAULT_MAX_COMMENT_DEPTH = 25"

definition maxDepthOf :: "CommentOptions \<Rightarrow> int" where
  "maxDepthOf opts = (case opt_maxDepth opts of None \<Rightarrow> DEFAULT_MAX_COMMENT_DEPTH | Some v \<Rightarrow> v)"

definition currentDepthOf :: "CommentOptions \<Rightarrow> int" where
  "currentDepthOf opts = (case opt_currentDepth opts of None \<Rightarrow> 0 | Some v \<Rightarrow> v)"

definition concurrencyOf :: "CommentOptions \<Rightarrow> int" where
  "concurrencyOf opts = (case opt_concurrency opts of None \<Rightarrow> 5 | Some v \<Rightarrow> v)"

text \<open>The options of the recursive call: \<^verbatim>\<open>{ maxDepth, currentDepth: currentDepth + 1, concurrency }\<close>.\<close>

definition childOptions :: "CommentOptions \<Rightarrow> CommentOptions" where
  "childOptions opts =
     \<lparr>opt_maxDepth = Some (maxDepthOf opts), opt_currentDepth = Some (currentDepthOf opts + 1),
      opt_concurrency = Some (concurrencyOf opts)\<rparr>"

text \<open>The placeholder that replaces a child whose load failed.\<close>

definition placeholder :: "int \<Rightarrow> HackerNewsCommentTree" where
  "placeholder kidId =
     CommentTree
       \<lparr>item_id = kidId, deleted = Some True, item_type = Some ''comment'', item_by = None,
        item_time = None, item_text = Some ''Failed to load comment'', dead = None,
        parent = None, poll = None, kids = None, item_url = None, score = None, title = None,
        parts = None, descendants = None\<rparr>
       []"

text \<open>\<^verbatim>\<open>(reply) => !reply.deleted && !reply.dead\<close>\<close>

definition validReply :: "HackerNewsCommentTree \<Rightarrow> bool" where
  "validReply reply \<longleftrightarrow> \<not> truthy (deleted (item reply)) \<and> \<not> truthy (dead (item reply))"

text \<open>
  \<^verbatim>\<open>Promise.all\<close> over the scheduled tasks: it settles when every task has settled, with the
  results in the order of the tasks; \<open>None\<close> is a promise that never settles.
\<close>

fun promiseAll :: "'a option list \<Rightarrow> 'a list option" where
  "promiseAll [] = Some []"
| "promiseAll (None # tasks) = None"
| "promiseAll (Some r # tasks) =
     (case promiseAll tasks of None \<Rightarrow> None | Some rs \<Rightarrow> Some (r # rs))"

text \<open>
  \<^verbatim>\<open>getItemWithComments(itemId, options)\<close>. The result is \<open>None\<close> when the returned promise never
  settles, else the thrown value (\<open>Inl\<close>) or the tree.
  \<^item> The cache-backed \<^verbatim>\<open>getItem\<close> is a parameter: what resolving each id gives, an error
    (\<open>Inl\<close>) or an item, the same throughout one call.
  \<^item> The shared limiter (the Bottleneck library, by default with five slots) is a
    parameter too: \<open>limiter path\<close> tells whether the task scheduled at \<open>path\<close> is ever started.
    A task is named by its path, the positions of the kids on the way from the root
    call down to it; the root call has the path \<open>[]\<close>. A started task holds its slot
    until its own call, children included, has settled, so the limiter may leave a task
    waiting forever; \<^verbatim>\<open>limiter.schedule\<close> of a task that is never started never settles.
  \<^item> The \<^verbatim>\<open>try\<close>/\<^verbatim>\<open>catch\<close> inside the task turns a failed child into the placeholder.
  The recursion ends because the current depth grows towards the maximum depth.
\<close>

function getItemWithComments ::
    "(nat list \<Rightarrow> bool) \<Rightarrow> (int \<Rightarrow> exn + HackerNewsItem) \<Rightarrow> nat list \<Rightarrow> int \<Rightarrow> CommentOptions
       \<Rightarrow> (exn + HackerNewsCommentTree) option" where
  "getItemWithComments limiter getItem path itemId opts =
     (case getItem itemId of
        Inl error \<Rightarrow> Some (Inl error)
      | Inr it \<Rightarrow>
          (case kids it of
             None \<Rightarrow> Some (Inr (CommentTree it []))
           | Some ks \<Rightarrow>
               if ks = [] \<or> currentDepthOf opts \<ge> maxDepthOf opts
               then Some (Inr (CommentTree it []))
               else
                 (case promiseAll
                         (map (\<lambda>(i, kidId).
                                if limiter (path @ [i])
                                then (case getItemWithComments limiter getItem (path @ [i]) kidId
                                             (childOptions opts) of
                                        None \<Rightarrow> None
                                      | Some (Inl error) \<Rightarrow> Some (placeholder kidId)
                                      | Some (Inr tree) \<Rightarrow> Some tree)
                                else None)
                            (enumerate 0 ks)) of
                    None \<Rightarrow> None
                  | Some results \<Rightarrow> Some (Inr (CommentTree it (filter validReply results))))))"
  by pat_completeness auto
termination
  by (relation "measure (\<lambda>(limiter, getItem, path, itemId, opts).
                  nat (maxDepthOf opts - currentDepthOf opts))")
     (auto simp: childOptions_def maxDepthOf_def currentDepthOf_def)

declare getItemWithComments.simps [simp del]

text \<open>The limiter that starts every task, as \<^verbatim>\<open>limiter: false\<close> gives (no bound on the running tasks).\<close>

definition unlimited :: "nat list \<Rightarrow> bool" where
  "unlimited path = True"

text \<open>Concrete items, for the examples: a story 1 with the kids 2, 3, 4, of which 3 fails to load.\<close>

definition plainItem :: "int \<Rightarrow> int list option \<Rightarrow> HackerNewsItem" where
  "plainItem i ks =
     \<lparr>item_id = i, deleted = None, item_type = None, item_by = None, item_time = None,
      item_text = None, dead = None, parent = None, poll = None, kids = ks, item_url = None,
      score = None, title = None, parts = None, descendants = None\<rparr>"

definition exampleItems :: "int \<Rightarrow> exn + HackerNewsItem" where
  "exampleItems i =
     (if i = 1 then Inr (plainItem 1 (Some [2, 3, 4]))
      else if i = 3 then Inl (Error ''HN API error 500: Failed to fetch item 3'')
      else Inr (plainItem i None))"

definition commentOptions :: "int option \<Rightarrow> CommentOptions" where
  "commentOptions md = \<lparr>opt_maxDepth = md, opt_currentDepth = None, opt_concurrency = None\<rparr>"

section \<open>The retry loop: helper facts\<close>

lemma catchBlock_trace: "catchBlock opts a x st = (s, st') \<Longrightarrow> trace st' = trace st"
  by (auto simp: catchBlock_def Let_def split: if_splits)

lemma catchBlock_abort:
  "isAbortError x \<Longrightarrow> catchBlock opts a x st = (Thrown x, st\<lparr>lastError := Some x\<rparr>)"
  by (simp add: catchBlock_def)

lemma catchBlock_result:
  "catchBlock opts a x st = (s, st') \<Longrightarrow>
     trace st' = trace st \<and>
     (s = Thrown x \<or> (s = NextAttempt \<and> int a < maxRetries opts \<and> isNetworkError x))"
  by (auto simp: catchBlock_def Let_def split: if_splits)

lemma abort_not_network: "isAbortError x \<Longrightarrow> \<not> isNetworkError x"
  by (cases x) simp_all

lemma isAbortError_operationAborted: "isAbortError operationAborted"
  by (simp add: operationAborted_def)

lemma signalAborted_iff: "abortAt e = Some k \<Longrightarrow> signalAborted e st \<longleftrightarrow> k \<le> length (trace st)"
  by (simp add: signalAborted_def)

lemma signalAborted_None: "abortAt e = None \<Longrightarrow> \<not> signalAborted e st"
  by (simp add: signalAborted_def)

lemma trace_sleep: "trace (sleep ms st) = trace st @ [Slept ms]"
  by (simp add: sleep_def)

lemma doFetch_eq:
  "doFetch e st = (transport e (transportCalls (trace st)) (abortAt e = Some (Suc (length (trace st)))),
      st\<lparr>trace := trace st @ [Fetched]\<rparr>)"
  by (simp add: doFetch_def)

lemma retryAfterWait_cancel:
  assumes "abortAt e = Some k" "length (trace st) \<le> k" "int a < maxRetries opts"
    and "retryAfterWait e opts a response st = (s, st')"
    and "length (trace st) = k \<longrightarrow> trace st \<noteq> [] \<and> last (trace st) = Fetched"
    and "honoursSignal e \<longrightarrow> length (trace st) < k"
  shows "cancelPost e k (stepAborts s) st'"
  using assms
  by (auto simp: retryAfterWait_def cancelPost_def Let_def signalAborted_iff trace_sleep
      catchBlock_abort isAbortError_operationAborted
      split: option.splits if_splits)

lemma handleResponse_cancel:
  assumes "abortAt e = Some k" "length (trace st) \<le> k"
    and "handleResponse e opts a response st = (s, st')"
    and "length (trace st) = k \<longrightarrow> trace st \<noteq> [] \<and> last (trace st) = Fetched"
    and "honoursSignal e \<longrightarrow> length (trace st) < k"
  shows "cancelPost e k (stepAborts s) st' \<and> (s = NextAttempt \<longrightarrow> int a < maxRetries opts)"
proof (cases "\<not> ok response \<and> status response \<in> set (retryableStatusCodes opts)
     \<and> \<not> (int a \<ge> maxRetries opts \<and> status response = 429) \<and> int a < maxRetries opts")
  case True
  then have "retryAfterWait e opts a response
             (st\<lparr>lastError :=
                  Some (RetryingError (status response) (int a + 1) (maxRetries opts))\<rparr>) = (s, st')"
    using assms(3) by (simp add: handleResponse_def)
  from retryAfterWait_cancel[OF assms(1) _ _ this] assms True show ?thesis by simp
next
  case False
  then show ?thesis using assms
    by (auto simp: handleResponse_def cancelPost_def dest!: catchBlock_result
        split: if_splits)
qed


lemma attemptBody_cancel:
  assumes "abortAt e = Some k" "length (trace st) \<le> k"
    and "attemptBody e opts a st = (s, st')"
  shows "cancelPost e k (stepAborts s) st' \<and> (s = NextAttempt \<longrightarrow> int a < maxRetries opts)"
proof (cases "signalAborted e st")
  case True
  then show ?thesis using assms
    by (auto simp: attemptBody_def cancelPost_def catchBlock_abort isAbortError_operationAborted)
next
  case notab: False
  define st1 where "st1 = (if a > 0
                   then sleep (BackoffTime (a - 1)) st
                   else st)"
  have len1: "length (trace st1) \<le> k"
    using notab assms(1,2) by (auto simp: st1_def signalAborted_iff trace_sleep)
  show ?thesis
  proof (cases "a > 0 \<and> signalAborted e st1")
    case True
    then show ?thesis using assms notab
      by (auto simp: attemptBody_def cancelPost_def catchBlock_abort isAbortError_operationAborted
          st1_def signalAborted_iff Let_def trace_sleep)
  next
    case False
    then have lt: "length (trace st1) < k"
      using notab assms(1,2) by (auto simp: st1_def signalAborted_iff)
    obtain out st2 where df: "doFetch e st1 = (out, st2)" by force
    have tr2: "trace st2 = trace st1 @ [Fetched]" using df by (auto simp: doFetch_eq)
    have body: "attemptBody e opts a st =
        (case out of Rejects error \<Rightarrow> catchBlock opts a error st2
                   | Resolves response \<Rightarrow> handleResponse e opts a response st2)"
      using notab False df by (auto simp: attemptBody_def Let_def st1_def)
    have hon: "honoursSignal e \<Longrightarrow> length (trace st2) = k \<Longrightarrow> \<exists>x. out = Rejects x \<and> isAbortError x"
      using df assms(1) tr2 by (auto simp: doFetch_eq honoursSignal_def)
    show ?thesis
    proof (cases out)
      case (Resolves response)
      then have hr: "handleResponse e opts a response st2 = (s, st')"
        using body assms(3) by simp
      have "honoursSignal e \<longrightarrow> length (trace st2) < k"
        using hon Resolves lt tr2 by fastforce
      from handleResponse_cancel[OF assms(1) _ hr _ this] lt tr2 show ?thesis by simp
    next
      case (Rejects x)
      then have cb: "catchBlock opts a x st2 = (s, st')" using body assms(3) by simp
      from catchBlock_result[OF cb] hon Rejects lt tr2 show ?thesis
        by (auto simp: cancelPost_def dest: abort_not_network)
    qed
  qed
qed

lemma retryLoop_cancel:
  "abortAt e = Some k \<Longrightarrow> length (trace st) \<le> k \<Longrightarrow>
     int a \<le> maxRetries opts \<or> length (trace st) < k \<Longrightarrow>
     retryLoop e opts a st = (res, st') \<Longrightarrow>
     cancelPost e k (\<exists>x. res = Inl x \<and> isAbortError x) st'"
proof (induction e opts a st rule: retryLoop.induct)
  case (1 e opts attempt st)
  show ?case
  proof (cases "int attempt \<le> maxRetries opts")
    case True
    obtain s st1 where ab: "attemptBody e opts attempt st = (s, st1)" by force
    note post = attemptBody_cancel[OF "1.prems"(1,2) ab]
    show ?thesis
    proof (cases s)
      case (Returned r)
      then show ?thesis using post "1.prems"(4) True ab
        by (auto simp: retryLoop.simps[of e opts attempt st] cancelPost_def)
    next
      case (Thrown x)
      then show ?thesis using post "1.prems"(4) True ab
        by (auto simp: retryLoop.simps[of e opts attempt st] cancelPost_def)
    next
      case NextAttempt
      then have rec: "retryLoop e opts (Suc attempt) st1 = (res, st')"
        using "1.prems"(4) True ab by (simp add: retryLoop.simps[of e opts attempt st])
      have "length (trace st1) \<le> k" using post by (simp add: cancelPost_def)
      moreover have "int (Suc attempt) \<le> maxRetries opts" using post NextAttempt by simp
      ultimately show ?thesis
        using "1.IH"[OF True ab[symmetric] NextAttempt "1.prems"(1) _ _ rec] by blast
    qed
  next
    case False
    then show ?thesis using "1.prems"
      by (auto simp: retryLoop.simps[of e opts attempt st] cancelPost_def)
  qed
qed


lemma transportCalls_le: "transportCalls tr \<le> length tr"
  by (simp add: transportCalls_def)

lemma transportCalls_simps:
  "transportCalls [] = 0"
  "transportCalls (tr @ [Fetched]) = Suc (transportCalls tr)"
  "transportCalls (tr @ [Slept ms]) = transportCalls tr"
  by (simp_all add: transportCalls_def isFetched_def)

lemma network_not_abort: "isNetworkError x \<Longrightarrow> \<not> isAbortError x"
  by (cases x) simp_all

lemma attemptBody_network:
  assumes "abortAt e = None" "retryNetworkErrors opts"
    and "transport e (transportCalls (trace st)) False = Rejects x" "isNetworkError x"
  shows "\<exists>st'. attemptBody e opts a st
            = (if int a < maxRetries opts then NextAttempt else Thrown x, st')
          \<and> transportCalls (trace st') = Suc (transportCalls (trace st))"
  using assms network_not_abort[OF assms(4)]
  by (auto simp: attemptBody_def Let_def signalAborted_None doFetch_eq trace_sleep
      transportCalls_def isFetched_def catchBlock_def)

lemma retryLoop_network:
  "abortAt e = None \<Longrightarrow> retryNetworkErrors opts \<Longrightarrow>
   \<forall>n b. \<exists>x. transport e n b = Rejects x \<and> isNetworkError x \<Longrightarrow>
   maxRetries opts = int m \<Longrightarrow> a \<le> m \<Longrightarrow> transportCalls (trace st) = a \<Longrightarrow>
   \<exists>x st'. retryLoop e opts a st = (Inl x, st') \<and> transport e m False = Rejects x
        \<and> transportCalls (trace st') = Suc m"
proof (induction e opts a st rule: retryLoop.induct)
  case (1 e opts attempt st)
  obtain x where x: "transport e (transportCalls (trace st)) False = Rejects x" "isNetworkError x"
    using "1.prems"(3) by blast
  obtain st1 where ab: "attemptBody e opts attempt st
            = (if int attempt < maxRetries opts then NextAttempt else Thrown x, st1)"
      and calls: "transportCalls (trace st1) = Suc (transportCalls (trace st))"
    using attemptBody_network[OF "1.prems"(1,2) x] by blast
  have le: "int attempt \<le> maxRetries opts" using "1.prems" by simp
  show ?case
  proof (cases "attempt < m")
    case True
    then have ab': "attemptBody e opts attempt st = (NextAttempt, st1)"
      using ab "1.prems"(4) by simp
    have "\<exists>x st'. retryLoop e opts (Suc attempt) st1 = (Inl x, st')
            \<and> transport e m False = Rejects x \<and> transportCalls (trace st') = Suc m"
      using "1.IH"[OF le ab'[symmetric] refl "1.prems"(1,2,3,4)] True calls "1.prems"(6)
      by simp
    then show ?thesis using le ab' by (simp add: retryLoop.simps[of e opts attempt st])
  next
    case False
    then have m: "attempt = m" using "1.prems"(5) by simp
    have "\<not> int attempt < maxRetries opts" using False "1.prems"(4) by simp
    then have "retryLoop e opts attempt st = (Inl x, st1)"
      using le ab by (simp add: retryLoop.simps[of e opts attempt st])
    then show ?thesis using x calls "1.prems"(6) m by auto
  qed
qed

lemma parseInt_30: "parseInt ''30'' = Some 30"
  by (simp add: parseInt_def isWhiteSpace_def isDigit_def digitsValue_def Let_def)

text \<open>The definitions that evaluate a concrete run.\<close>

lemmas run_defs = fetchWithRetry_def signalAborted_def initialRun_def doFetch_def
  attemptBody_def handleResponse_def retryAfterWait_def catchBlock_def sleep_def
  constantTransport_def abortableTransport_def mkResponse_def retryOptions_def mergeOptions_def
  DEFAULT_RETRY_OPTIONS_def transportCalls_def isFetched_def ok_def operationAborted_def
  new_RateLimitError_def headersGet_def Let_def

section \<open>Retry termination\<close>

text \<open>
  C6 (retry termination), as amended. The retry loop is a total function: every run ends.
  For a policy with \<^verbatim>\<open>maxRetries = m\<close> and \<^verbatim>\<open>retryNetworkErrors\<close> set, in a run without
  cancellation in which every transport call throws a network error (a \<^verbatim>\<open>TypeError\<close> that
  \<^verbatim>\<open>isNetworkError\<close> recognises), \<^verbatim>\<open>fetchWithRetry\<close> calls the transport exactly \<open>m + 1\<close> times
  and then throws the error of the last call.
\<close>

theorem C6_retry_termination:
  assumes "abortAt e = None" and "retryNetworkErrors (mergeOptions p)"
    and "maxRetries (mergeOptions p) = int m"
    and "\<forall>n b. \<exists>x. transport e n b = Rejects x \<and> isNetworkError x"
  shows "\<exists>x st. fetchWithRetry e (RetryWith p) = (Inl x, st)
           \<and> transport e m False = Rejects x
           \<and> transportCalls (trace st) = m + 1"
  using retryLoop_network[OF assms(1,2,4,3), of 0 initialRun] assms(1)
  by (simp add: fetchWithRetry_def signalAborted_None initialRun_def transportCalls_simps)

text \<open>
  The theorem at \<^verbatim>\<open>maxRetries = 2\<close> with a transport that always throws
  \<^verbatim>\<open>TypeError('Failed to fetch')\<close>: three calls, then that error.
\<close>

theorem C6_retry_termination_witness:
  "\<exists>st. fetchWithRetry (constantTransport (Rejects (TypeError ''Failed to fetch'')) None)
            (RetryWith (retryOptions 2 None))
          = (Inl (TypeError ''Failed to fetch''), st)
        \<and> transportCalls (trace st) = 3"
proof -
  let ?e = "constantTransport (Rejects (TypeError ''Failed to fetch'')) None"
  let ?p = "retryOptions 2 None"
  have h1: "abortAt ?e = None" by (simp add: constantTransport_def)
  have h2: "retryNetworkErrors (mergeOptions ?p)"
    by (simp add: mergeOptions_def retryOptions_def DEFAULT_RETRY_OPTIONS_def)
  have h3: "maxRetries (mergeOptions ?p) = int 2"
    by (simp add: mergeOptions_def retryOptions_def)
  have h4: "\<forall>n b. \<exists>x. transport ?e n b = Rejects x \<and> isNetworkError x"
    by (simp add: constantTransport_def)
  from C6_retry_termination[OF h1 h2 h3 h4] show ?thesis
    by (simp add: constantTransport_def)
qed

text \<open>
  The claim without the restriction to recognised network errors fails: a transport that
  always throws \<^verbatim>\<open>TypeError('fetch failed')\<close> (the message of Node's \<^verbatim>\<open>fetch\<close>) is called once,
  not four times, under \<^verbatim>\<open>maxRetries = 3\<close> with \<^verbatim>\<open>retryNetworkErrors\<close> set.
\<close>

theorem C6_retry_termination_counterexample:
  "fetchWithRetry (constantTransport (Rejects (TypeError ''fetch failed'')) None)
       (RetryWith (retryOptions 3 None))
     = (Inl (TypeError ''fetch failed''),
        \<lparr>trace = [Fetched], lastError = Some (TypeError ''fetch failed'')\<rparr>)
   \<and> transportCalls [Fetched] = 1
   \<and> retryNetworkErrors (mergeOptions (retryOptions 3 None))
   \<and> maxRetries (mergeOptions (retryOptions 3 None)) = 3"
  by (simp add: run_defs retryLoop.simps[of _ _ 0] sublist_code)

section \<open>Rate-limit surfacing\<close>

text \<open>
  C7 (rate-limit surfacing). When every transport call answers with status 429 and the
  header \<^verbatim>\<open>Retry-After: 30\<close>, 429 is among the retryable status codes and \<^verbatim>\<open>maxRetries\<close> is 0,
  a call of \<^verbatim>\<open>fetchWithRetry\<close> that is not cancelled beforehand throws a \<^verbatim>\<open>RateLimitError\<close>
  whose \<^verbatim>\<open>status\<close> is 429 and whose \<^verbatim>\<open>retryAfterSeconds\<close> is 30, after one transport call.
\<close>

theorem C7_rate_limit:
  assumes "\<forall>n b. \<exists>r. transport e n b = Resolves r \<and> status r = 429
              \<and> headersGet r ''Retry-After'' = Some ''30''"
    and "429 \<in> set (retryableStatusCodes (mergeOptions p))"
    and "maxRetries (mergeOptions p) = 0"
    and "abortAt e \<noteq> Some 0"
  shows "\<exists>r st. fetchWithRetry e (RetryWith p) = (Inl (RateLimitError 429 r (Some (Some 30))), st)
           \<and> transportCalls (trace st) = 1"
proof -
  define d where "d = (abortAt e = Some (Suc 0))"
  obtain r where r: "transport e 0 d = Resolves r" "status r = 429"
      "headersGet r ''Retry-After'' = Some ''30''"
    using assms(1) by blast
  have na: "\<not> signalAborted e initialRun"
    using assms(4) by (auto simp: signalAborted_def initialRun_def split: option.splits)
  have "attemptBody e (mergeOptions p) 0 initialRun
      = (Thrown (RateLimitError 429 r (Some (Some 30))),
         \<lparr>trace = [Fetched], lastError = Some (RateLimitError 429 r (Some (Some 30)))\<rparr>)"
    using na r assms(2,3)
    by (simp add: attemptBody_def doFetch_eq initialRun_def transportCalls_simps d_def
        handleResponse_def ok_def catchBlock_def new_RateLimitError_def parseInt_30)
  then show ?thesis using na assms(3)
    by (simp add: fetchWithRetry_def retryLoop.simps[of e _ 0] transportCalls_def isFetched_def)
qed

text \<open>The theorem at the transport of the repository's test.\<close>

theorem C7_rate_limit_witness:
  "\<exists>st. fetchWithRetry
            (constantTransport (Resolves (mkResponse 429 [(''Retry-After'', ''30'')])) None)
            (RetryWith (retryOptions 0 (Some [429])))
          = (Inl (RateLimitError 429 (mkResponse 429 [(''Retry-After'', ''30'')]) (Some (Some 30))), st)
        \<and> transportCalls (trace st) = 1"
proof -
  let ?e = "constantTransport (Resolves (mkResponse 429 [(''Retry-After'', ''30'')])) None"
  let ?p = "retryOptions 0 (Some [429])"
  have h1: "\<forall>n b. \<exists>r. transport ?e n b = Resolves r \<and> status r = 429
              \<and> headersGet r ''Retry-After'' = Some ''30''"
    by (simp add: constantTransport_def mkResponse_def headersGet_def)
  have h2: "429 \<in> set (retryableStatusCodes (mergeOptions ?p))"
    by (simp add: mergeOptions_def retryOptions_def)
  have h3: "maxRetries (mergeOptions ?p) = 0"
    by (simp add: mergeOptions_def retryOptions_def)
  have h4: "abortAt ?e \<noteq> Some 0" by (simp add: constantTransport_def)
  from C7_rate_limit[OF h1 h2 h3 h4] show ?thesis
    by (auto simp: run_defs retryLoop.simps[of _ _ 0])
qed

section \<open>Cancellation\<close>

text \<open>
  C9 (cancellation), as amended. In a run of \<^verbatim>\<open>fetchWithRetry\<close> in which cancellation is
  requested at \<open>k\<close> (before the call for \<open>k = 0\<close>, else while the \<open>k\<close>-th await is pending):
  \<^item> no transport call and no sleep is started after the request;
  \<^item> a run that reaches the request throws an abort error, unless the await pending at
    the request was a transport call (whose answer may then end the run);
  \<^item> with a transport that honours the signal, a run that reaches the request always
    throws an abort error;
  \<^item> if cancellation is requested before the first attempt completes (\<open>k \<le> 1\<close>), the
    transport is called at most once.
\<close>

theorem C9_cancellation:
  assumes "abortAt e = Some k" and "fetchWithRetry e arg = (res, st)"
  shows "length (trace st) \<le> k
       \<and> (length (trace st) = k \<longrightarrow>
            (\<exists>x. res = Inl x \<and> isAbortError x) \<or> (trace st \<noteq> [] \<and> last (trace st) = Fetched))
       \<and> ((\<forall>n. \<exists>x. transport e n True = Rejects x \<and> isAbortError x) \<longrightarrow>
            length (trace st) = k \<longrightarrow> (\<exists>x. res = Inl x \<and> isAbortError x))
       \<and> (k \<le> 1 \<longrightarrow> transportCalls (trace st) \<le> 1)"
proof -
  have post: "cancelPost e k (\<exists>x. res = Inl x \<and> isAbortError x) st"
  proof (cases "signalAborted e initialRun")
    case True
    then show ?thesis using assms
      by (auto simp: fetchWithRetry_def cancelPost_def signalAborted_iff initialRun_def
          isAbortError_operationAborted)
  next
    case False
    then have k: "0 < k" using assms(1) by (simp add: signalAborted_iff initialRun_def)
    show ?thesis
    proof (cases arg)
      case RetryFalse
      have "honoursSignal e \<longrightarrow> (\<exists>x. transport e (transportCalls []) True = Rejects x \<and> isAbortError x)"
        by (simp add: honoursSignal_def)
      then show ?thesis using RetryFalse assms False k
        by (auto simp: fetchWithRetry_def cancelPost_def doFetch_eq initialRun_def
            split: fetch_outcome.splits)
    next
      case RetryAbsent
      then have "retryLoop e DEFAULT_RETRY_OPTIONS 0 initialRun = (res, st)"
        using assms(2) False by (simp add: fetchWithRetry_def)
      from retryLoop_cancel[OF assms(1) _ _ this] k show ?thesis
        by (simp add: initialRun_def)
    next
      case (RetryWith p)
      then have "retryLoop e (mergeOptions p) 0 initialRun = (res, st)"
        using assms(2) False by (simp add: fetchWithRetry_def)
      from retryLoop_cancel[OF assms(1) _ _ this] k show ?thesis
        by (simp add: initialRun_def)
    qed
  qed
  have "k \<le> 1 \<longrightarrow> transportCalls (trace st) \<le> 1"
    using post transportCalls_le[of "trace st"] by (auto simp: cancelPost_def)
  then show ?thesis using post by (simp add: cancelPost_def honoursSignal_def)
qed

text \<open>
  The theorem at two runs: cancellation during the first call on a transport that honours
  the signal, and cancellation during the first backoff sleep (the repository's test).
\<close>

theorem C9_cancellation_witness:
  "fetchWithRetry (abortableTransport (Resolves (mkResponse 500 [])) (Some 1)) RetryAbsent
     = (Inl operationAborted, \<lparr>trace = [Fetched], lastError = Some operationAborted\<rparr>)
   \<and> length [Fetched] \<le> (1::nat)
   \<and> isAbortError operationAborted
   \<and> transportCalls [Fetched] \<le> 1
   \<and> fetchWithRetry (constantTransport (Resolves (mkResponse 500 [])) (Some 2))
         (RetryWith (retryOptions 2 (Some [500])))
     = (Inl operationAborted,
        \<lparr>trace = [Fetched, Slept (BackoffTime 0)], lastError = Some operationAborted\<rparr>)
   \<and> length [Fetched, Slept (BackoffTime 0)] \<le> (2::nat)"
proof -
  let ?e = "abortableTransport (Resolves (mkResponse 500 [])) (Some 1)"
  let ?st = "\<lparr>trace = [Fetched], lastError = Some operationAborted\<rparr>"
  let ?e2 = "constantTransport (Resolves (mkResponse 500 [])) (Some 2)"
  let ?st2 = "\<lparr>trace = [Fetched, Slept (BackoffTime 0)], lastError = Some operationAborted\<rparr>"
  have h1: "abortAt ?e = Some 1" by (simp add: abortableTransport_def)
  have h2: "fetchWithRetry ?e RetryAbsent = (Inl operationAborted, ?st)"
    by (simp add: run_defs retryLoop.simps[of _ _ 0])
  have g1: "abortAt ?e2 = Some 2" by (simp add: constantTransport_def)
  have g2: "fetchWithRetry ?e2 (RetryWith (retryOptions 2 (Some [500])))
      = (Inl operationAborted, ?st2)"
    by (simp add: run_defs retryLoop.simps[of _ _ 0] retryLoop.simps[of _ _ "Suc 0"])
  from C9_cancellation[OF h1 h2] C9_cancellation[OF g1 g2] h2 g2 show ?thesis
    by (simp add: operationAborted_def)
qed

text \<open>
  The claim that a run fails with an abort error once cancellation has been requested
  does not hold: when the transport answers the call that is in flight at the request
  with a success response, \<^verbatim>\<open>fetchWithRetry\<close> returns that response.
\<close>

theorem C9_cancellation_counterexample:
  "abortAt (constantTransport (Resolves (mkResponse 200 [])) (Some 1)) = Some 1
   \<and> fetchWithRetry (constantTransport (Resolves (mkResponse 200 [])) (Some 1)) RetryAbsent
       = (Inr (mkResponse 200 []), \<lparr>trace = [Fetched], lastError = None\<rparr>)"
  by (simp add: run_defs retryLoop.simps[of _ _ 0])

section \<open>Retry disabled\<close>

text \<open>
  C10 (retry disabled). With the options argument \<^verbatim>\<open>false\<close>: if the signal is aborted before
  the call, \<^verbatim>\<open>fetchWithRetry\<close> throws the abort error and makes no transport call; otherwise
  it makes exactly one transport call and its result is that call's result, unchanged:
  the response whatever its status, or the error the transport threw.
\<close>

theorem C10_retry_disabled:
  "(abortAt e = Some 0 \<longrightarrow>
       fetchWithRetry e RetryFalse = (Inl operationAborted, initialRun))
   \<and> (abortAt e \<noteq> Some 0 \<longrightarrow>
       transportCalls (trace (snd (fetchWithRetry e RetryFalse))) = 1
       \<and> (\<forall>r. transport e 0 (abortAt e = Some 1) = Resolves r
              \<longrightarrow> fst (fetchWithRetry e RetryFalse) = Inr r)
       \<and> (\<forall>x. transport e 0 (abortAt e = Some 1) = Rejects x
              \<longrightarrow> fst (fetchWithRetry e RetryFalse) = Inl x))"
  by (cases "transport e 0 (abortAt e = Some 1)")
     (auto simp: fetchWithRetry_def signalAborted_def initialRun_def doFetch_eq
      transportCalls_def isFetched_def split: option.splits)

text \<open>The theorem at a transport answering 404, without cancellation and with the signal aborted beforehand.\<close>

theorem C10_retry_disabled_witness:
  "fetchWithRetry (constantTransport (Resolves (mkResponse 404 [])) None) RetryFalse
     = (Inr (mkResponse 404 []), \<lparr>trace = [Fetched], lastError = None\<rparr>)
   \<and> transportCalls [Fetched] = 1
   \<and> fetchWithRetry (constantTransport (Resolves (mkResponse 404 [])) (Some 0)) RetryFalse
     = (Inl operationAborted, initialRun)"
proof -
  let ?e = "constantTransport (Resolves (mkResponse 404 [])) None"
  let ?a = "constantTransport (Resolves (mkResponse 404 [])) (Some 0)"
  have e: "abortAt ?e \<noteq> Some 0" "transport ?e 0 (abortAt ?e = Some 1) = Resolves (mkResponse 404 [])"
    by (simp_all add: constantTransport_def)
  have a: "abortAt ?a = Some 0" by (simp add: constantTransport_def)
  have st: "snd (fetchWithRetry ?e RetryFalse) = \<lparr>trace = [Fetched], lastError = None\<rparr>"
    by (simp add: run_defs)
  from C10_retry_disabled[of ?e] C10_retry_disabled[of ?a] e a st show ?thesis
    by (simp add: prod_eq_iff transportCalls_def isFetched_def)
qed

section \<open>The cache: helper facts\<close>

lemma get_miss:
  assumes "map_of (cache c) key = None" "map_of (fetchPromises c) key = None"
  shows "get key fetchFn now c =
     (Awaits (length (promises c)),
      c\<lparr>promises := promises c @ [\<lparr>promiseKey = key, settled = Pending\<rparr>],
        loaderCalls := loaderCalls c @ [(key, fetchFn)],
        fetchPromises := AList.update key (length (promises c)) (fetchPromises c)\<rparr>)"
  using assms by (simp add: get_def fetchAndCache_def Let_def)

lemma get_in_flight:
  assumes "map_of (cache c) key = None" "map_of (fetchPromises c) key = Some p"
  shows "get key fetchFn now c = (Awaits p, c)"
  using assms by (simp add: get_def Let_def)

lemma getAll_in_flight:
  assumes "map_of (cache c) key = None" "map_of (fetchPromises c) key = Some p"
  shows "getAll key calls c = (replicate (length calls) (Awaits p), c)"
  using assms by (induction calls) (auto simp: get_in_flight)

lemma promises_evict [simp]: "promises (evictLRUIfNeeded c) = promises c"
  by (simp add: evictLRUIfNeeded_def Let_def split: option.splits)

lemma settle_state:
  assumes "p < length (promises c)" "isPending (settled (promises c ! p))"
  shows "settled (promises (settle p outcome t c) ! p)
       = (case outcome of Inl x \<Rightarrow> Rejected x | Inr v \<Rightarrow> Fulfilled v)"
  using assms by (auto simp: settle_def Let_def split: sum.splits)

lemma deleteEntries_simps [simp]:
  "deleteEntries [] al = al"
  "deleteEntries (v # vs) al = deleteEntries vs (AList.delete (fst v) al)"
  by (simp_all add: deleteEntries_def)

lemma set_deleteEntries:
  "set (deleteEntries vs al) = {p \<in> set al. fst p \<notin> fst ` set vs}"
  by (induction vs arbitrary: al) (auto simp: AList.delete_eq)

lemma map_of_deleteEntries:
  "k \<notin> fst ` set vs \<Longrightarrow> map_of (deleteEntries vs al) k = map_of al k"
  by (induction vs arbitrary: al) auto

lemma keys_delete: "fst ` set (AList.delete k al) = fst ` set al - {k}"
  by (induction al) auto

lemma length_delete_distinct:
  "distinct (map fst al) \<Longrightarrow> k \<in> fst ` set al \<Longrightarrow> Suc (length (AList.delete k al)) = length al"
  by (induction al) (auto simp: rev_image_eqI)

lemma length_deleteEntries:
  "distinct (map fst al) \<Longrightarrow> distinct (map fst vs) \<Longrightarrow> fst ` set vs \<subseteq> fst ` set al \<Longrightarrow>
     length (deleteEntries vs al) + length vs = length al"
proof (induction vs arbitrary: al)
  case Nil
  then show ?case by simp
next
  case (Cons v vs)
  have d: "distinct (map fst (AList.delete (fst v) al))"
    using Cons.prems(1) by (rule distinct_delete)
  have sub: "fst ` set vs \<subseteq> fst ` set (AList.delete (fst v) al)"
    using Cons.prems(2,3) by (auto simp: keys_delete rev_image_eqI)
  have "length (deleteEntries vs (AList.delete (fst v) al)) + length vs
          = length (AList.delete (fst v) al)"
    using Cons.IH[OF d _ sub] Cons.prems(2) by simp
  moreover have "Suc (length (AList.delete (fst v) al)) = length al"
    using Cons.prems by (intro length_delete_distinct) auto
  ultimately show ?case by simp
qed

lemma update_fresh: "k \<notin> fst ` set al \<Longrightarrow> AList.update k v al = al @ [(k, v)]"
  by (induction al) auto

lemma insort_key_snoc:
  "f x \<le> f y \<Longrightarrow> insort_key f x (zs @ [y]) = insort_key f x zs @ [y]"
  by (induction zs) auto

lemma sort_key_snoc_max:
  "\<forall>x\<in>set xs. f x \<le> f y \<Longrightarrow> sort_key f (xs @ [y]) = sort_key f xs @ [y]"
  by (induction xs) (auto simp: insort_key_snoc)

lemma distinct_map_insort_key:
  "distinct (map g (insort_key f x xs)) \<longleftrightarrow> g x \<notin> g ` set xs \<and> distinct (map g xs)"
  by (induction xs) (auto simp: set_insort_key)

lemma distinct_map_sort_key:
  "distinct (map g (sort_key f xs)) \<longleftrightarrow> distinct (map g xs)"
  by (induction xs) (auto simp: distinct_map_insort_key)

lemma fst_accessTimes [simp]: "map fst (accessTimes al) = map fst al"
  by (induction al) (auto simp: accessTimes_def)

lemma length_accessTimes [simp]: "length (accessTimes al) = length al"
  by (simp add: accessTimes_def)

lemma accessTimes_append [simp]: "accessTimes (al @ bl) = accessTimes al @ accessTimes bl"
  by (simp add: accessTimes_def)

lemma keys_accessTimes [simp]: "fst ` set (accessTimes al) = fst ` set al"
  by (metis fst_accessTimes set_map)

lemma evict_unfold:
  "evictLRUIfNeeded c =
     (case maxEntries (options c) of
        None \<Rightarrow> c
      | Some m \<Rightarrow>
          if m = 0 \<or> int (length (cache c)) \<le> m then c
          else c\<lparr>cache := deleteEntries (take (nat (int (length (cache c)) - m))
                                        (sort_key snd (accessTimes (cache c)))) (cache c)\<rparr>)"
  by (simp add: evictLRUIfNeeded_def Let_def split: option.splits)

text \<open>The newest entry survives the eviction.\<close>

lemma evict_keeps_newest:
  assumes cap: "case maxEntries (options c) of None \<Rightarrow> True | Some m \<Rightarrow> 0 < m"
    and c: "cache c = al @ [(key, entry)]" and fresh: "key \<notin> fst ` set al"
    and old: "\<forall>(k, e) \<in> set al. lastAccessed e \<le> lastAccessed entry"
  shows "map_of (cache (evictLRUIfNeeded c)) key = Some entry"
proof (cases "maxEntries (options c)")
  case None
  have "map_of al key = None" using fresh by (simp add: map_of_eq_None_iff)
  then show ?thesis using None c by (simp add: evict_unfold map_add_def)
next
  case (Some m)
  then have m: "0 < m" using cap by simp
  have "map_of al key = None" using fresh by (simp add: map_of_eq_None_iff)
  then have mo: "map_of (al @ [(key, entry)]) key = Some entry"
    by (simp add: map_add_def)
  show ?thesis
  proof (cases "int (length (cache c)) \<le> m")
    case True
    then show ?thesis using Some c mo by (simp add: evict_unfold)
  next
    case False
    let ?n = "nat (int (length (cache c)) - m)"
    have n: "?n \<le> length al" using m c by simp
    have "\<forall>x\<in>set (accessTimes al). snd x \<le> snd (key, lastAccessed entry)"
      using old by (auto simp: accessTimes_def)
    then have "sort_key snd (accessTimes (cache c))
        = sort_key snd (accessTimes al) @ [(key, lastAccessed entry)]"
      using sort_key_snoc_max[of "accessTimes al" snd "(key, lastAccessed entry)"]
      by (simp add: c accessTimes_def)
    then have "take ?n (sort_key snd (accessTimes (cache c))) = take ?n (sort_key snd (accessTimes al))"
      using n by simp
    moreover have "key \<notin> fst ` set (take ?n (sort_key snd (accessTimes al)))"
    proof
      assume "key \<in> fst ` set (take ?n (sort_key snd (accessTimes al)))"
      then have "key \<in> fst ` set (sort_key snd (accessTimes al))"
        using set_take_subset by fastforce
      then show False using fresh by simp
    qed
    ultimately show ?thesis using Some False m c mo
      by (simp add: evict_unfold map_of_deleteEntries)
  qed
qed

lemma cache_settle:
  assumes "p < length (promises c)" "isPending (settled (promises c ! p))"
  shows "cache (settle p (Inr v) now c)
       = cache (evictLRUIfNeeded (c\<lparr>cache := AList.update (promiseKey (promises c ! p))
                 \<lparr>data = v, timestamp = now, lastAccessed = now\<rparr> (cache c)\<rparr>))"
  using assms by (simp add: settle_def Let_def)

lemma evict_length:
  assumes d: "distinct (map fst (cache c))" and m: "maxEntries (options c) = Some m" "0 < m"
  shows "int (length (cache (evictLRUIfNeeded c))) = min m (int (length (cache c)))"
proof (cases "int (length (cache c)) \<le> m")
  case True
  then show ?thesis using m by (simp add: evict_unfold)
next
  case False
  let ?n = "nat (int (length (cache c)) - m)"
  let ?vs = "take ?n (sort_key snd (accessTimes (cache c)))"
  have n: "?n \<le> length (cache c)" using m by simp
  have len: "length ?vs = ?n" using n by simp
  have dv: "distinct (map fst ?vs)"
    using d by (simp add: distinct_map_sort_key distinct_take flip: take_map)
  have "set ?vs \<subseteq> set (sort_key snd (accessTimes (cache c)))" by (rule set_take_subset)
  then have sub: "fst ` set ?vs \<subseteq> fst ` set (cache c)"
    using keys_accessTimes[of "cache c"] by (metis image_mono set_sort)
  have "length (deleteEntries ?vs (cache c)) + length ?vs = length (cache c)"
    using length_deleteEntries[OF d dv sub] .
  then have "int (length (deleteEntries ?vs (cache c))) = m"
    using len False by linarith
  then show ?thesis using m False by (simp add: evict_unfold)
qed

lemma evict_subset: "set (cache (evictLRUIfNeeded c)) \<subseteq> set (cache c)"
  by (auto simp: evict_unfold set_deleteEntries split: option.splits)

lemma evict_distinct:
  "distinct (map fst (cache c)) \<Longrightarrow> distinct (map fst (cache (evictLRUIfNeeded c)))"
proof -
  have "distinct (map fst al) \<Longrightarrow> distinct (map fst (deleteEntries vs al))" for vs and al :: "(string \<times> 'a CacheEntry) list"
    by (induction vs arbitrary: al) (auto simp: distinct_delete)
  then show "distinct (map fst (cache c)) \<Longrightarrow> distinct (map fst (cache (evictLRUIfNeeded c)))"
    by (auto simp: evict_unfold split: option.splits)
qed

lemma evict_oldest_first:
  assumes d: "distinct (map fst (cache c))"
    and e1: "(k1, e1) \<in> set (cache c)" "k1 \<notin> fst ` set (cache (evictLRUIfNeeded c))"
    and e2: "(k2, e2) \<in> set (cache (evictLRUIfNeeded c))"
  shows "lastAccessed e1 \<le> lastAccessed e2"
proof (cases "cache (evictLRUIfNeeded c) = cache c")
  case True
  then show ?thesis using e1 by (force simp: image_iff)
next
  case False
  then obtain m where m: "maxEntries (options c) = Some m" "\<not> (m = 0 \<or> int (length (cache c)) \<le> m)"
    by (auto simp: evict_unfold split: option.splits if_splits)
  let ?n = "nat (int (length (cache c)) - m)"
  let ?s = "sort_key snd (accessTimes (cache c))"
  have ev: "cache (evictLRUIfNeeded c) = deleteEntries (take ?n ?s) (cache c)"
    using m by (simp add: evict_unfold)
  have in2: "(k2, e2) \<in> set (cache c)" and out2: "k2 \<notin> fst ` set (take ?n ?s)"
    using e2 by (auto simp: ev set_deleteEntries)
  have in1: "k1 \<in> fst ` set (take ?n ?s)"
    using e1 by (force simp: ev set_deleteEntries image_iff)
  then obtain x where x: "(k1, x) \<in> set (take ?n ?s)" by auto
  then have "(k1, x) \<in> set (accessTimes (cache c))"
    using set_take_subset[of ?n ?s] by auto
  then obtain e where "(k1, e) \<in> set (cache c)" "x = lastAccessed e"
    by (auto simp: accessTimes_def)
  then have x1: "x = lastAccessed e1"
    using d e1(1) by (metis eq_key_imp_eq_value)
  have "(k2, lastAccessed e2) \<in> set ?s"
    using in2 by (force simp: accessTimes_def)
  then have "(k2, lastAccessed e2) \<in> set (take ?n ?s) \<union> set (drop ?n ?s)"
    by (metis append_take_drop_id set_append)
  then have y: "(k2, lastAccessed e2) \<in> set (drop ?n ?s)"
    using out2 by (force simp: image_iff)
  have "sorted (map snd (take ?n ?s @ drop ?n ?s))" by (simp add: sorted_sort_key)
  then have "\<forall>a\<in>set (take ?n ?s). \<forall>b\<in>set (drop ?n ?s). snd a \<le> snd b"
    unfolding map_append sorted_append by auto
  then show ?thesis using x y x1 by fastforce
qed

lemma options_evict [simp]: "options (evictLRUIfNeeded c) = options c"
  and fetchPromises_evict [simp]: "fetchPromises (evictLRUIfNeeded c) = fetchPromises c"
  and loaderCalls_evict [simp]: "loaderCalls (evictLRUIfNeeded c) = loaderCalls c"
  by (simp_all add: evict_unfold split: option.splits)

lemma load_miss:
  assumes "map_of (cache c) key = None" "fetchPromises c = []"
  shows "cache (load key f v now c)
       = cache (evictLRUIfNeeded
            (c\<lparr>cache := cache c @ [(key, \<lparr>data = v, timestamp = now, lastAccessed = now\<rparr>)]\<rparr>))"
    and "fetchPromises (load key f v now c) = []"
    and "loaderCalls (load key f v now c) = loaderCalls c @ [(key, f)]"
    and "options (load key f v now c) = options c"
proof -
  have fresh: "key \<notin> fst ` set (cache c)" using assms(1) by (simp add: map_of_eq_None_iff)
  have g: "get key f now c = (Awaits (length (promises c)),
      c\<lparr>promises := promises c @ [\<lparr>promiseKey = key, settled = Pending\<rparr>],
        loaderCalls := loaderCalls c @ [(key, f)],
        fetchPromises := AList.update key (length (promises c)) (fetchPromises c)\<rparr>)"
    using get_miss[of c key f now] assms by simp
  let ?c1 = "c\<lparr>promises := promises c @ [\<lparr>promiseKey = key, settled = Pending\<rparr>],
        loaderCalls := loaderCalls c @ [(key, f)],
        fetchPromises := AList.update key (length (promises c)) (fetchPromises c)\<rparr>"
  have l: "load key f v now c = settle (length (promises c)) (Inr v) now ?c1"
    by (simp add: load_def g)
  have e: "evictLRUIfNeeded (?c1\<lparr>cache := AList.update key \<lparr>data = v, timestamp = now, lastAccessed = now\<rparr> (cache c)\<rparr>)
      = (evictLRUIfNeeded (c\<lparr>cache := cache c @ [(key, \<lparr>data = v, timestamp = now, lastAccessed = now\<rparr>)]\<rparr>))
         \<lparr>promises := promises ?c1, loaderCalls := loaderCalls ?c1, fetchPromises := fetchPromises ?c1\<rparr>"
    by (simp add: evict_unfold update_fresh[OF fresh] split: option.splits)
  show "cache (load key f v now c)
       = cache (evictLRUIfNeeded
            (c\<lparr>cache := cache c @ [(key, \<lparr>data = v, timestamp = now, lastAccessed = now\<rparr>)]\<rparr>))"
    unfolding l by (simp add: cache_settle e)
  show "fetchPromises (load key f v now c) = []"
    unfolding l using assms(2) by (simp add: settle_def Let_def)
  show "loaderCalls (load key f v now c) = loaderCalls c @ [(key, f)]"
    unfolding l by (simp add: settle_def Let_def)
  show "options (load key f v now c) = options c"
    unfolding l by (simp add: settle_def Let_def)
qed

lemma get_fresh:
  assumes "map_of (cache c) key = Some e" "now - timestamp e < maxAge (options c)"
  shows "get key f now c
       = (Value (data e), c\<lparr>cache := AList.update key (e\<lparr>lastAccessed := now\<rparr>) (cache c)\<rparr>)"
  using assms by (simp add: get_def Let_def)

lemma lru_scenario:
  fixes vA vB vC vD :: 'v and fA fB fC fD fA' g :: 'l and swr ma :: int
  assumes k: "distinct [a, b, c, d]"
    and t: "t1 < t2" "t2 < t3" "t3 < t4" "t4 < t5" "t5 \<le> t6" "t6 - t1 < ma"
  defines "cD \<equiv> load d fD vD t5 (snd (get a fA' t4
                 (load c fC vC t3 (load b fB vB t2 (load a fA vA t1 (cacheWith ma swr (Some 3)))))))"
  shows "cache cD = [(a, \<lparr>data = vA, timestamp = t1, lastAccessed = t4\<rparr>),
                       (c, \<lparr>data = vC, timestamp = t3, lastAccessed = t3\<rparr>),
                       (d, \<lparr>data = vD, timestamp = t5, lastAccessed = t5\<rparr>)]"
    and "loaderCalls cD = [(a, fA), (b, fB), (c, fC), (d, fD)]"
    and "options cD = \<lparr>maxAge = ma, staleWhileRevalidate = swr, maxEntries = Some 3\<rparr>"
proof -
  let ?c0 = "cacheWith ma swr (Some 3) :: ('v, 'l) Cache"
  let ?o = "\<lparr>maxAge = ma, staleWhileRevalidate = swr, maxEntries = Some 3\<rparr>"
  define c1 where "c1 = load a fA vA t1 ?c0"
  define c2 where "c2 = load b fB vB t2 c1"
  define c3 where "c3 = load c fC vC t3 c2"
  define c4 where "c4 = snd (get a fA' t4 c3)"
  have s0: "cache ?c0 = []" "fetchPromises ?c0 = []" "loaderCalls ?c0 = []" "options ?c0 = ?o"
    by (simp_all add: cacheWith_def newCache_def)
  have s1: "cache c1 = [(a, \<lparr>data = vA, timestamp = t1, lastAccessed = t1\<rparr>)]"
      "fetchPromises c1 = []" "loaderCalls c1 = [(a, fA)]" "options c1 = ?o"
    unfolding c1_def using s0 load_miss[of ?c0 a fA vA t1] by (simp_all add: evict_unfold)
  have s2: "cache c2 = [(a, \<lparr>data = vA, timestamp = t1, lastAccessed = t1\<rparr>),
                        (b, \<lparr>data = vB, timestamp = t2, lastAccessed = t2\<rparr>)]"
      "fetchPromises c2 = []" "loaderCalls c2 = [(a, fA), (b, fB)]" "options c2 = ?o"
  proof -
    have "map_of (cache c1) b = None" using s1 k by auto
    from load_miss[OF this s1(2), of fB vB t2] s1 show
      "cache c2 = [(a, \<lparr>data = vA, timestamp = t1, lastAccessed = t1\<rparr>),
                        (b, \<lparr>data = vB, timestamp = t2, lastAccessed = t2\<rparr>)]"
      "fetchPromises c2 = []" "loaderCalls c2 = [(a, fA), (b, fB)]" "options c2 = ?o"
      unfolding c2_def by (simp_all add: evict_unfold)
  qed
  have s3: "cache c3 = [(a, \<lparr>data = vA, timestamp = t1, lastAccessed = t1\<rparr>),
                        (b, \<lparr>data = vB, timestamp = t2, lastAccessed = t2\<rparr>),
                        (c, \<lparr>data = vC, timestamp = t3, lastAccessed = t3\<rparr>)]"
      "fetchPromises c3 = []" "loaderCalls c3 = [(a, fA), (b, fB), (c, fC)]" "options c3 = ?o"
  proof -
    have "map_of (cache c2) c = None" using s2 k by auto
    from load_miss[OF this s2(2), of fC vC t3] s2 show
      "cache c3 = [(a, \<lparr>data = vA, timestamp = t1, lastAccessed = t1\<rparr>),
                        (b, \<lparr>data = vB, timestamp = t2, lastAccessed = t2\<rparr>),
                        (c, \<lparr>data = vC, timestamp = t3, lastAccessed = t3\<rparr>)]"
      "fetchPromises c3 = []" "loaderCalls c3 = [(a, fA), (b, fB), (c, fC)]" "options c3 = ?o"
      unfolding c3_def by (simp_all add: evict_unfold)
  qed
  have g4: "get a fA' t4 c3 = (Value vA, c3\<lparr>cache := AList.update a
               (\<lparr>data = vA, timestamp = t1, lastAccessed = t1\<rparr>\<lparr>lastAccessed := t4\<rparr>) (cache c3)\<rparr>)"
    using get_fresh[of c3 a "\<lparr>data = vA, timestamp = t1, lastAccessed = t1\<rparr>" t4 fA'] s3 t
    by simp
  have s4: "cache c4 = [(a, \<lparr>data = vA, timestamp = t1, lastAccessed = t4\<rparr>),
                        (b, \<lparr>data = vB, timestamp = t2, lastAccessed = t2\<rparr>),
                        (c, \<lparr>data = vC, timestamp = t3, lastAccessed = t3\<rparr>)]"
      "fetchPromises c4 = []" "loaderCalls c4 = [(a, fA), (b, fB), (c, fC)]" "options c4 = ?o"
    unfolding c4_def g4 using s3 by simp_all
  have cD: "cD = load d fD vD t5 c4"
    by (simp add: cD_def c4_def c3_def c2_def c1_def)
  have m4: "map_of (cache c4) d = None" using s4 k by auto
  show "cache cD = [(a, \<lparr>data = vA, timestamp = t1, lastAccessed = t4\<rparr>),
                       (c, \<lparr>data = vC, timestamp = t3, lastAccessed = t3\<rparr>),
                       (d, \<lparr>data = vD, timestamp = t5, lastAccessed = t5\<rparr>)]"
    unfolding cD load_miss(1)[OF m4 s4(2)] using s4 k t
    by (auto simp: evict_unfold accessTimes_def)
  show "loaderCalls cD = [(a, fA), (b, fB), (c, fC), (d, fD)]"
    unfolding cD load_miss(3)[OF m4 s4(2)] using s4 by simp
  show "options cD = ?o"
    unfolding cD load_miss(4)[OF m4 s4(2)] using s4 by simp
qed

lemma settle_capacity:
  assumes "distinct (map fst (cache c))" "p < length (promises c)"
    and "isPending (settled (promises c ! p))" "maxEntries (options c) = Some m" "0 < m"
  shows "int (length (cache (settle p (Inr v) now c)))
       = min m (int (length (AList.update (promiseKey (promises c ! p))
                 \<lparr>data = v, timestamp = now, lastAccessed = now\<rparr> (cache c))))"
proof -
  let ?c1 = "c\<lparr>cache := AList.update (promiseKey (promises c ! p))
                 \<lparr>data = v, timestamp = now, lastAccessed = now\<rparr> (cache c)\<rparr>"
  have d: "distinct (map fst (cache ?c1))" using assms(1) by (simp add: distinct_update)
  have "int (length (cache (evictLRUIfNeeded ?c1))) = min m (int (length (cache ?c1)))"
    using assms(4,5) by (intro evict_length[OF d]) simp_all
  then show ?thesis by (simp add: cache_settle[OF assms(2,3)])
qed

lemma settle_keeps:
  assumes "p < length (promises c)" "isPending (settled (promises c ! p))"
  shows "set (cache (settle p (Inr v) now c))
       \<subseteq> set (AList.update (promiseKey (promises c ! p))
                 \<lparr>data = v, timestamp = now, lastAccessed = now\<rparr> (cache c))"
  using evict_subset[of "c\<lparr>cache := AList.update (promiseKey (promises c ! p))
                 \<lparr>data = v, timestamp = now, lastAccessed = now\<rparr> (cache c)\<rparr>"]
  by (simp add: cache_settle[OF assms])

lemma settle_oldest_first:
  assumes "distinct (map fst (cache c))" "p < length (promises c)"
    and "isPending (settled (promises c ! p))"
    and "(k1, e1) \<in> set (AList.update (promiseKey (promises c ! p))
                 \<lparr>data = v, timestamp = now, lastAccessed = now\<rparr> (cache c))"
    and "k1 \<notin> fst ` set (cache (settle p (Inr v) now c))"
    and "(k2, e2) \<in> set (cache (settle p (Inr v) now c))"
  shows "lastAccessed e1 \<le> lastAccessed e2"
proof -
  let ?c1 = "c\<lparr>cache := AList.update (promiseKey (promises c ! p))
                 \<lparr>data = v, timestamp = now, lastAccessed = now\<rparr> (cache c)\<rparr>"
  have d: "distinct (map fst (cache ?c1))" using assms(1) by (simp add: distinct_update)
  show ?thesis
    using evict_oldest_first[OF d, of k1 e1 k2 e2] assms(4,5,6)
    by (simp add: cache_settle[OF assms(2,3)])
qed

lemma lru_retrieve:
  fixes vA vC vD :: 'v and g :: 'l and x :: "('v, 'l) Cache"
  assumes k: "distinct [a, c, d]"
    and x: "cache x = [(a, \<lparr>data = vA, timestamp = t1, lastAccessed = t4\<rparr>),
                       (c, \<lparr>data = vC, timestamp = t3, lastAccessed = t3\<rparr>),
                       (d, \<lparr>data = vD, timestamp = t5, lastAccessed = t5\<rparr>)]"
    and o: "maxAge (options x) = ma"
    and t: "t6 - t1 < ma" "t6 - t3 < ma" "t6 - t5 < ma"
  shows "fst (get a g t6 x) = Value vA"
    and "fst (get c g t6 (snd (get a g t6 x))) = Value vC"
    and "fst (get d g t6 (snd (get c g t6 (snd (get a g t6 x))))) = Value vD"
    and "loaderCalls (snd (get d g t6 (snd (get c g t6 (snd (get a g t6 x)))))) = loaderCalls x"
proof -
  define x1 where "x1 = snd (get a g t6 x)"
  define x2 where "x2 = snd (get c g t6 x1)"
  have g1: "get a g t6 x = (Value vA, x\<lparr>cache := AList.update a
               (\<lparr>data = vA, timestamp = t1, lastAccessed = t4\<rparr>\<lparr>lastAccessed := t6\<rparr>) (cache x)\<rparr>)"
    using get_fresh[of x a "\<lparr>data = vA, timestamp = t1, lastAccessed = t4\<rparr>" t6 g] x o t
    by simp
  have s1: "cache x1 = [(a, \<lparr>data = vA, timestamp = t1, lastAccessed = t6\<rparr>),
                       (c, \<lparr>data = vC, timestamp = t3, lastAccessed = t3\<rparr>),
                       (d, \<lparr>data = vD, timestamp = t5, lastAccessed = t5\<rparr>)]"
      "maxAge (options x1) = ma" "loaderCalls x1 = loaderCalls x"
    unfolding x1_def g1 using x o by simp_all
  have "map_of (cache x1) c = Some \<lparr>data = vC, timestamp = t3, lastAccessed = t3\<rparr>"
    using s1 k by auto
  from get_fresh[OF this, of t6 g] s1 t
  have g2: "get c g t6 x1 = (Value vC, x1\<lparr>cache := AList.update c
               (\<lparr>data = vC, timestamp = t3, lastAccessed = t3\<rparr>\<lparr>lastAccessed := t6\<rparr>) (cache x1)\<rparr>)"
    by simp
  have s2: "cache x2 = [(a, \<lparr>data = vA, timestamp = t1, lastAccessed = t6\<rparr>),
                       (c, \<lparr>data = vC, timestamp = t3, lastAccessed = t6\<rparr>),
                       (d, \<lparr>data = vD, timestamp = t5, lastAccessed = t5\<rparr>)]"
      "maxAge (options x2) = ma" "loaderCalls x2 = loaderCalls x"
    unfolding x2_def g2 using s1 k by auto
  have "map_of (cache x2) d = Some \<lparr>data = vD, timestamp = t5, lastAccessed = t5\<rparr>"
    using s2 k by auto
  from get_fresh[OF this, of t6 g] s2 t
  have g3: "get d g t6 x2 = (Value vD, x2\<lparr>cache := AList.update d
               (\<lparr>data = vD, timestamp = t5, lastAccessed = t5\<rparr>\<lparr>lastAccessed := t6\<rparr>) (cache x2)\<rparr>)"
    by simp
  show "fst (get a g t6 x) = Value vA" by (simp add: g1)
  show "fst (get c g t6 (snd (get a g t6 x))) = Value vC"
    using g2 by (simp add: x1_def)
  show "fst (get d g t6 (snd (get c g t6 (snd (get a g t6 x))))) = Value vD"
    using g3 by (simp add: x1_def x2_def)
  show "loaderCalls (snd (get d g t6 (snd (get c g t6 (snd (get a g t6 x)))))) = loaderCalls x"
    using g3 s2 by (simp add: x1_def x2_def)
qed

text \<open>The keys of the cache stay distinct, as those of a \<^verbatim>\<open>Map\<close> are.\<close>

lemma distinct_newCache: "distinct (map fst (cache (newCache p)))"
  by (simp add: newCache_def)

lemma distinct_settle:
  "distinct (map fst (cache c)) \<Longrightarrow> distinct (map fst (cache (settle p outcome now c)))"
  by (auto simp: settle_def Let_def distinct_update evict_distinct split: sum.splits)

lemma distinct_get:
  "distinct (map fst (cache c)) \<Longrightarrow> distinct (map fst (cache (snd (get key f now c))))"
  by (auto simp: get_def Let_def fetchAndCache_def refreshInBackground_def distinct_update
      split: option.splits)

lemma distinct_invalidate:
  "distinct (map fst (cache c)) \<Longrightarrow> distinct (map fst (cache (invalidate key c)))"
  by (simp add: invalidate_def distinct_delete)

lemma distinct_refresh:
  "distinct (map fst (cache c)) \<Longrightarrow> distinct (map fst (cache (snd (refresh key f c))))"
  by (simp add: refresh_def fetchAndCache_def Let_def)

text \<open>The definitions that evaluate a concrete cache.\<close>

lemmas cache_defs = load_def get_def settle_def fetchAndCache_def refreshInBackground_def
  evictLRUIfNeeded_def accessTimes_def deleteEntries_def newCache_def cacheWith_def has_def
  invalidate_def Let_def

section \<open>Single-flight\<close>

text \<open>
  C1 (single-flight). For a key with no cache entry and no fetch in flight, \<open>N \<ge> 1\<close> calls
  of \<^verbatim>\<open>get\<close> made before the load settles all return the same promise, the one of the
  first call; the loader is invoked exactly once (the first call's); and that promise
  settles as the loader's promise does, so all \<open>N\<close> callers receive the value the single
  invocation produced (or its error).
\<close>

theorem C1_single_flight:
  assumes "map_of (cache c) key = None" and "map_of (fetchPromises c) key = None"
  shows "\<exists>c'. getAll key ((fetchFn, now) # calls) c
              = (replicate (Suc (length calls)) (Awaits (length (promises c))), c')
           \<and> loaderCalls c' = loaderCalls c @ [(key, fetchFn)]
           \<and> (\<forall>outcome t.
                settled (promises (settle (length (promises c)) outcome t c') ! length (promises c))
                  = (case outcome of Inl x \<Rightarrow> Rejected x | Inr v \<Rightarrow> Fulfilled v))"
proof -
  let ?p = "length (promises c)"
  let ?c1 = "c\<lparr>promises := promises c @ [\<lparr>promiseKey = key, settled = Pending\<rparr>],
        loaderCalls := loaderCalls c @ [(key, fetchFn)],
        fetchPromises := AList.update key ?p (fetchPromises c)\<rparr>"
  have first: "get key fetchFn now c = (Awaits ?p, ?c1)"
    using get_miss[OF assms] .
  have "map_of (cache ?c1) key = None" using assms(1) by simp
  moreover have "map_of (fetchPromises ?c1) key = Some ?p"
    by (simp add: update_conv')
  ultimately have rest: "getAll key calls ?c1 = (replicate (length calls) (Awaits ?p), ?c1)"
    by (rule getAll_in_flight)
  have "\<forall>outcome t. settled (promises (settle ?p outcome t ?c1) ! ?p)
                  = (case outcome of Inl x \<Rightarrow> Rejected x | Inr v \<Rightarrow> Fulfilled v)"
    by (intro allI settle_state) simp_all
  then show ?thesis using first rest by simp
qed

text \<open>The theorem at three callers of a key of the empty cache.\<close>

theorem C1_single_flight_witness:
  "getAll ''k'' [(0, 0), (1, 1), (2, 2)] (emptyCache :: (string, nat) Cache)
     = ([Awaits 0, Awaits 0, Awaits 0], inFlightExample)
   \<and> loaderCalls inFlightExample = [(''k'', 0)]
   \<and> settled (promises (settle 0 (Inr ''v'') 5 inFlightExample) ! 0) = Fulfilled ''v''"
proof -
  let ?c = "emptyCache :: (string, nat) Cache"
  have h: "map_of (cache ?c) ''k'' = None" "map_of (fetchPromises ?c) ''k'' = None"
    by (simp_all add: emptyCache_def newCache_def)
  from C1_single_flight[OF h, of 0 0 "[(1, 1), (2, 2)]"] show ?thesis
    by (auto simp: inFlightExample_def emptyCache_def cache_defs)
qed

section \<open>Stale-while-revalidate\<close>

text \<open>
  C2 (stale-while-revalidate de-duplication), evaluated on the code. With \<^verbatim>\<open>maxAge = 100\<close>,
  \<^verbatim>\<open>staleWhileRevalidate = 200\<close> and a key written at 0, the calls of \<^verbatim>\<open>get\<close> at 150 and at 160
  both return the cached value at once; but each of them invokes its loader, although the
  load of the first is still in flight: after the two calls the log holds the loaders 1
  and 2 beside the loader 0 of the first write, and the in-flight record is the promise
  of the second call.
\<close>

theorem C2_stale_gets_each_invoke_loader:
  "fst (get ''k'' 1 150 staleExample) = Value ''old''
   \<and> fst (get ''k'' 2 160 (snd (get ''k'' 1 150 staleExample))) = Value ''old''
   \<and> loaderCalls staleExample = [(''k'', 0)]
   \<and> fetchPromises (snd (get ''k'' 1 150 staleExample)) = [(''k'', 1)]
   \<and> loaderCalls (snd (get ''k'' 2 160 (snd (get ''k'' 1 150 staleExample))))
       = [(''k'', 0), (''k'', 1), (''k'', 2)]
   \<and> fetchPromises (snd (get ''k'' 2 160 (snd (get ''k'' 1 150 staleExample)))) = [(''k'', 2)]"
  by (simp add: staleExample_def cache_defs)

section \<open>Invalidation during a load\<close>

text \<open>
  C3 (invalidate during a blocking load), as amended. If \<^verbatim>\<open>invalidate(key)\<close> is called while a
  load for \<open>key\<close> is in flight, the load's promise still settles with the load's result, and
  a successful result is written to the cache all the same: after the load has settled
  at time \<open>now\<close> the cache holds the loaded value for \<open>key\<close>, written at \<open>now\<close>. (The capacity
  is unset or positive, and no entry was accessed later than \<open>now\<close>, so that the eviction
  keeps the new entry.)
\<close>

theorem C3_invalidate_in_flight:
  assumes "p < length (promises c)" and "isPending (settled (promises c ! p))"
    and "promiseKey (promises c ! p) = key"
    and "case maxEntries (options c) of None \<Rightarrow> True | Some m \<Rightarrow> 0 < m"
    and "\<forall>(k, e) \<in> set (cache c). lastAccessed e \<le> now"
  shows "settled (promises (settle p (Inr v) now (invalidate key c)) ! p) = Fulfilled v
       \<and> map_of (cache (settle p (Inr v) now (invalidate key c))) key
           = Some \<lparr>data = v, timestamp = now, lastAccessed = now\<rparr>"
proof -
  let ?i = "invalidate key c"
  let ?new = "\<lparr>data = v, timestamp = now, lastAccessed = now\<rparr>"
  have pi: "promises ?i = promises c" by (simp add: invalidate_def)
  have st: "settled (promises (settle p (Inr v) now ?i) ! p) = Fulfilled v"
    using settle_state[of p ?i "Inr v" now] assms(1,2) pi by simp
  let ?al = "AList.delete key (cache c)"
  have fresh: "key \<notin> fst ` set ?al" by (rule delete_notin_dom)
  let ?c1 = "?i\<lparr>cache := AList.update key ?new (cache ?i)\<rparr>"
  have c1: "cache ?c1 = ?al @ [(key, ?new)]"
    using update_fresh[OF fresh] by (simp add: invalidate_def)
  have cap: "case maxEntries (options ?c1) of None \<Rightarrow> True | Some m \<Rightarrow> 0 < m"
    using assms(4) by (simp add: invalidate_def)
  have old: "\<forall>(k, e) \<in> set ?al. lastAccessed e \<le> lastAccessed ?new"
    using assms(5) by (auto simp: AList.delete_eq)
  have "map_of (cache (evictLRUIfNeeded ?c1)) key = Some ?new"
    using evict_keeps_newest[OF cap c1 fresh old] .
  moreover have "cache (settle p (Inr v) now ?i) = cache (evictLRUIfNeeded ?c1)"
    using cache_settle[of p ?i v now] assms(1,2,3) pi by simp
  ultimately show ?thesis using st by simp
qed

text \<open>The theorem at the first load of a key, invalidated while in flight and settled at 5.\<close>

theorem C3_invalidate_in_flight_witness:
  "settled (promises (settle 0 (Inr ''v'') 5 (invalidate ''k'' inFlightExample)) ! 0) = Fulfilled ''v''
   \<and> map_of (cache (settle 0 (Inr ''v'') 5 (invalidate ''k'' inFlightExample))) ''k''
       = Some \<lparr>data = ''v'', timestamp = 5, lastAccessed = 5\<rparr>"
proof -
  have h: "0 < length (promises inFlightExample)"
      "isPending (settled (promises inFlightExample ! 0))"
      "promiseKey (promises inFlightExample ! 0) = ''k''"
      "case maxEntries (options inFlightExample) of None \<Rightarrow> True | Some m \<Rightarrow> 0 < m"
      "\<forall>(k, e) \<in> set (cache inFlightExample). lastAccessed e \<le> 5"
    by (simp_all add: inFlightExample_def emptyCache_def cache_defs)
  from C3_invalidate_in_flight[OF h] show ?thesis .
qed

text \<open>
  The claim that the result is not cached fails: the first \<^verbatim>\<open>get\<close> of the key starts a blocking
  load (promise 0), the key is invalidated, the load settles, and the cache has the key.
\<close>

theorem C3_invalidate_in_flight_counterexample:
  "fst (get ''k'' (0::nat) 0 (emptyCache :: (string, nat) Cache)) = Awaits 0
   \<and> \<not> has ''k'' (invalidate ''k'' inFlightExample)
   \<and> has ''k'' (settle 0 (Inr ''v'') 5 (invalidate ''k'' inFlightExample))"
  by (simp add: inFlightExample_def emptyCache_def cache_defs)

section \<open>Capacity and eviction\<close>




section \<open>The comment tree: partial failure\<close>

lemma getItemWithComments_fails:
  "getItem x = Inl err \<Longrightarrow> getItemWithComments limiter getItem path x opts = Some (Inl err)"
  by (simp add: getItemWithComments.simps[of limiter getItem path x opts])

lemma promiseAll_Some:
  "\<forall>t \<in> set tasks. t \<noteq> None \<Longrightarrow> \<exists>rs. promiseAll tasks = Some rs"
proof (induction tasks)
  case Nil
  then show ?case by simp
next
  case (Cons t tasks)
  then obtain r rs where "t = Some r" "promiseAll tasks = Some rs" by auto
  then show ?case by simp
qed

text \<open>When the limiter starts every task, the call settles.\<close>

lemma getItemWithComments_settles:
  "(\<forall>q. limiter q) \<Longrightarrow> \<exists>r. getItemWithComments limiter getItem path x opts = Some r"
proof (induction limiter getItem path x opts rule: getItemWithComments.induct)
  case (1 limiter getItem path itemId opts)
  show ?case
  proof (cases "getItem itemId")
    case (Inl err)
    then show ?thesis by (simp add: getItemWithComments.simps[of limiter getItem path itemId opts])
  next
    case (Inr it)
    show ?thesis
    proof (cases "kids it")
      case None
      then show ?thesis using Inr
        by (simp add: getItemWithComments.simps[of limiter getItem path itemId opts])
    next
      case (Some ks)
      show ?thesis
      proof (cases "ks = [] \<or> currentDepthOf opts \<ge> maxDepthOf opts")
        case True
        then show ?thesis using Inr Some
          by (auto simp: getItemWithComments.simps[of limiter getItem path itemId opts])
      next
        case False
        let ?tasks = "map (\<lambda>(i, kidId).
                                if limiter (path @ [i])
                                then (case getItemWithComments limiter getItem (path @ [i]) kidId
                                             (childOptions opts) of
                                        None \<Rightarrow> None
                                      | Some (Inl error) \<Rightarrow> Some (placeholder kidId)
                                      | Some (Inr tree) \<Rightarrow> Some tree)
                                else None)
                            (enumerate 0 ks)"
        have "\<forall>t \<in> set ?tasks. t \<noteq> None"
        proof
          fix t assume "t \<in> set ?tasks"
          then obtain i kidId where ik: "(i, kidId) \<in> set (enumerate 0 ks)"
            and t: "t = (if limiter (path @ [i])
                         then (case getItemWithComments limiter getItem (path @ [i]) kidId
                                      (childOptions opts) of
                                 None \<Rightarrow> None
                               | Some (Inl error) \<Rightarrow> Some (placeholder kidId)
                               | Some (Inr tree) \<Rightarrow> Some tree)
                         else None)"
            by auto
          have "\<exists>r. getItemWithComments limiter getItem (path @ [i]) kidId (childOptions opts) = Some r"
            using "1.IH"[OF Inr Some False ik refl] "1.prems" by blast
          then show "t \<noteq> None" using t "1.prems" by (auto split: sum.splits)
        qed
        then obtain rs where "promiseAll ?tasks = Some rs"
          using promiseAll_Some by blast
        then show ?thesis using Inr Some False
          by (simp add: getItemWithComments.simps[of limiter getItem path itemId opts])
      qed
    qed
  qed
qed

lemma getItemWithComments_root:
  assumes "\<forall>q. limiter q" and "getItem x = Inr it"
  shows "\<exists>rs. getItemWithComments limiter getItem path x opts = Some (Inr (CommentTree it rs))"
proof -
  obtain r where r: "getItemWithComments limiter getItem path x opts = Some r"
    using getItemWithComments_settles[OF assms(1)] by blast
  then show ?thesis using assms(2)
    by (auto simp: getItemWithComments.simps[of limiter getItem path x opts]
        split: option.splits if_splits)
qed

text \<open>When the limiter never starts the task of the first kid, the call never settles.\<close>

lemma getItemWithComments_waits:
  assumes "getItem x = Inr it" and "kids it = Some (k # ks)"
    and "currentDepthOf opts < maxDepthOf opts" and "\<not> limiter (path @ [0])"
  shows "getItemWithComments limiter getItem path x opts = None"
  using assms
  by (simp add: getItemWithComments.simps[of limiter getItem path x opts] enumerate_simps)

lemma validReply_placeholder: "\<not> validReply (placeholder k)"
  by (simp add: validReply_def placeholder_def truthy_def)

text \<open>The definitions that evaluate a concrete tree.\<close>

lemmas tree_defs = exampleItems_def plainItem_def commentOptions_def childOptions_def
  maxDepthOf_def currentDepthOf_def concurrencyOf_def DEFAULT_MAX_COMMENT_DEPTH_def
  validReply_def truthy_def placeholder_def unlimited_def




end
